theory Spec2Isabelle
  imports Complex_Main "HOL-Library.Word"
begin

unbundle bit_operations_syntax

section \<open>Data of the row store and of the columnar engine\<close>

text \<open>
  The two source files, \<^verbatim>\<open>quack_types.cpp\<close> and \<^verbatim>\<open>pgduckdb_filter.cpp\<close>, sit between
  PostgreSQL (the row store) and DuckDB (the columnar engine). A \<^verbatim>\<open>Datum\<close> is the
  row store's machine word (\<^verbatim>\<open>uintptr_t\<close>, 64 bits); C integers are words of their width:
  \<open>+\<close>, \<open>-\<close> and \<open>*\<close> wrap, \<open>ucast\<close> is a zero-extending or truncating cast,
  \<open>scast\<close> a sign-extending one, \<open>sint\<close> reads a word as two's complement.
\<close>

type_synonym Datum = "64 word"

text \<open>
  Type identifiers of the row store. The \<^verbatim>\<open>switch\<close> statements of the source name them
  symbolically; \<open>OTHEROID n\<close> stands for every identifier the source does not name.
\<close>

datatype Oid =
    BOOLOID | CHAROID | INT2OID | INT4OID | INT8OID
  | BPCHAROID | TEXTOID | VARCHAROID
  | DATEOID | TIMESTAMPOID | FLOAT4OID | FLOAT8OID | NUMERICOID
  | OTHEROID nat

datatype LogicalTypeId =
    BOOLEAN | TINYINT | SMALLINT | INTEGER | BIGINT | VARCHAR
  | DATE | TIMESTAMP | DOUBLE | DECIMAL
  | OTHER_TYPE nat

text \<open>
  \<^verbatim>\<open>duckdb::ExtraTypeInfo\<close>, the metadata a logical type may carry. \<open>NumericAsDouble\<close> is
  the marker class of this repository; \<open>DecimalTypeInfo\<close> holds the width and scale
  given to \<^verbatim>\<open>LogicalType::DECIMAL\<close>.
\<close>

datatype ExtraTypeInfo = NumericAsDouble | DecimalTypeInfo "32 word" "32 word" | OtherTypeInfo

record LogicalType =
  type_id :: LogicalTypeId
  aux_info :: "ExtraTypeInfo option"

datatype NumericSign = NUMERIC_POS | NUMERIC_NEG | NUMERIC_NAN | NUMERIC_PINF | NUMERIC_NINF

text \<open>
  \<^verbatim>\<open>NumericVar\<close>: the unpacked arbitrary-precision decimal of the row store. Digit groups
  are base-10000 (\<^verbatim>\<open>NumericDigit\<close>, 16 bits, kept as their integer values); \<open>weight\<close> is
  the position of the first group relative to the decimal point.
\<close>

record NumericVar =
  ndigits :: int
  weight :: int
  sign :: NumericSign
  dscale :: int
  digits :: "int list"

datatype error =
    UnsupportedPostgresType Oid
  | UnsupportedDuckType LogicalTypeId
  | DecimalTypeError
  | FilterUnsupportedType Oid
  | AssertionFailure
  | DuckValueCast
  | BadPointer Datum

text \<open>
  A scalar of the columnar engine, tagged with the C++ type it is stored as:
  \<^verbatim>\<open>Append<T>\<close> writes one into a vector and \<^verbatim>\<open>Value::GetValue<T>\<close> reads one. The
  type \<open>'d\<close> stands for \<^verbatim>\<open>double\<close>: floating-point arithmetic is not modelled, the
  operations on it are parameters. \<open>DTimeValue\<close> is a \<^verbatim>\<open>dtime_t\<close>, the engine's time of
  day, and \<open>TimestampValue\<close> a \<^verbatim>\<open>timestamp_t\<close>, the value of a column of logical type
  \<^verbatim>\<open>TIMESTAMP\<close>; both hold a count of microseconds in 64 bits.
\<close>

datatype 'd Value =
    BoolValue bool
  | Int8Value "8 word"
  | Int16Value "16 word"
  | Int32Value "32 word"
  | Int64Value "64 word"
  | StringValue "8 word list"
  | DateValue "32 word"
  | DTimeValue "64 word"
  | TimestampValue "64 word"
  | DoubleValue 'd

text \<open>
  \<^verbatim>\<open>value.GetValue<T>()\<close> returns the payload of a value stored as \<open>T\<close>. On a value of
  another type DuckDB runs one of its casts, which are not part of this repository: the
  model stops there with \<open>DuckValueCast\<close>. The one cast that the two conversions reach
  between them, from a timestamp to \<^verbatim>\<open>dtime_t\<close>, is a parameter instead
  (\<open>GetValue_dtime_t\<close> below).
\<close>

fun GetValue_bool :: "'d Value \<Rightarrow> error + bool" where
  "GetValue_bool (BoolValue b) = Inr b"
| "GetValue_bool _ = Inl DuckValueCast"

fun GetValue_int8_t :: "'d Value \<Rightarrow> error + 8 word" where
  "GetValue_int8_t (Int8Value w) = Inr w"
| "GetValue_int8_t _ = Inl DuckValueCast"

fun GetValue_int16_t :: "'d Value \<Rightarrow> error + 16 word" where
  "GetValue_int16_t (Int16Value w) = Inr w"
| "GetValue_int16_t _ = Inl DuckValueCast"

fun GetValue_int32_t :: "'d Value \<Rightarrow> error + 32 word" where
  "GetValue_int32_t (Int32Value w) = Inr w"
| "GetValue_int32_t _ = Inl DuckValueCast"

fun GetValue_int64_t :: "'d Value \<Rightarrow> error + 64 word" where
  "GetValue_int64_t (Int64Value w) = Inr w"
| "GetValue_int64_t _ = Inl DuckValueCast"

fun GetValue_string :: "'d Value \<Rightarrow> error + 8 word list" where
  "GetValue_string (StringValue s) = Inr s"
| "GetValue_string _ = Inl DuckValueCast"

fun GetValue_date_t :: "'d Value \<Rightarrow> error + 32 word" where
  "GetValue_date_t (DateValue days) = Inr days"
| "GetValue_date_t _ = Inl DuckValueCast"

fun GetValue_double :: "'d Value \<Rightarrow> error + 'd" where
  "GetValue_double (DoubleValue x) = Inr x"
| "GetValue_double _ = Inl DuckValueCast"

text \<open>
  A flat vector: its logical type, the slots written so far and the rows marked invalid
  in its validity mask. A chunk is the list of its column vectors.
\<close>

record 'd Vector =
  vec_type :: LogicalType
  vec_data :: "nat \<Rightarrow> 'd Value option"
  vec_invalid :: "nat set"

record 'd DataChunk =
  chunk_data :: "'d Vector list"

record Form_pg_attribute =
  atttypid :: Oid
  attlen :: int
  attalign :: char
  attbyval :: bool
  attcacheoff :: "32 word"

record TupleDesc =
  attrs :: "Form_pg_attribute list"

definition natts :: "TupleDesc \<Rightarrow> nat" where
  "natts tupleDesc = length (attrs tupleDesc)"

record TupleTableSlot =
  tts_tupleDescriptor :: TupleDesc
  tts_values :: "Datum list"

text \<open>
  A heap tuple as the reader sees it: the attribute count and the has-nulls flag of its
  header, its null bitmap, and the bytes of its data area.
\<close>

record HeapTupleData =
  t_natts :: nat
  t_hasnulls :: bool
  t_bits :: "8 word list"
  t_bytes :: "8 word list"

record HeapTuplePageReadState =
  m_slow :: bool
  m_nvalid :: nat
  m_offset :: "32 word"

text \<open>
  Variable-length values live in the row store's memory: a store from addresses to the
  payload bytes of the value found there.
\<close>

type_synonym memory = "Datum \<Rightarrow> 8 word list option"

text \<open>
  The operators of the template parameter \<^verbatim>\<open>T\<close> of \<^verbatim>\<open>ConvertDecimal\<close>, and its policy
  \<^verbatim>\<open>OP\<close> (declared in \<^verbatim>\<open>quack/types/decimal.hpp\<close>).
\<close>

record 't arith =
  T_of_int :: "int \<Rightarrow> 't"
  T_add :: "'t \<Rightarrow> 't \<Rightarrow> 't"
  T_mul :: "'t \<Rightarrow> 't \<Rightarrow> 't"
  T_div :: "'t \<Rightarrow> 't \<Rightarrow> 't"
  T_neg :: "'t \<Rightarrow> 't"

record 't DecimalConversion =
  GetPowerOfTen :: "nat \<Rightarrow> 't"
  Finalize :: "NumericVar \<Rightarrow> 't \<Rightarrow> 't"

text \<open>
  The comparison classes of DuckDB that instantiate the template parameter \<^verbatim>\<open>OP\<close> of
  the filter code.
\<close>

datatype comparison = Equals | LessThan | LessThanEquals | GreaterThan | GreaterThanEquals

text \<open>
  What the two files take from the headers of PostgreSQL and DuckDB, and from
  \<^verbatim>\<open>decimal.hpp\<close>: constants, datum accessors, the tuple-layout macros, the allocator,
  the arithmetic of \<^verbatim>\<open>double\<close>, and the conversion of a datum to a floating-point number
  with the comparison of two such numbers (\<open>'d\<close> stands for \<^verbatim>\<open>float\<close> there as well).
  None of it is defined in the two files, so all of
  it is a parameter of the model.
\<close>

record 'd env =
  VARHDRSZ :: "32 word"
  DatumGetBool :: "Datum \<Rightarrow> bool"
  DatumGetChar :: "Datum \<Rightarrow> 8 word"
  DatumGetInt16 :: "Datum \<Rightarrow> 16 word"
  DatumGetInt32 :: "Datum \<Rightarrow> 32 word"
  DatumGetInt64 :: "Datum \<Rightarrow> 64 word"
  DatumGetFloat8 :: "Datum \<Rightarrow> 'd"
  double_bytes :: "'d \<Rightarrow> Datum"
  FromNumeric :: "Datum \<Rightarrow> NumericVar"
  palloc0 :: "memory \<Rightarrow> nat \<Rightarrow> Datum"
  double_arith :: "'d arith"
  DecimalConversionDouble :: "'d DecimalConversion"
  att_isnull :: "nat \<Rightarrow> 8 word list \<Rightarrow> bool"
  att_align_nominal :: "32 word \<Rightarrow> char \<Rightarrow> 32 word"
  att_align_pointer :: "32 word \<Rightarrow> char \<Rightarrow> int \<Rightarrow> HeapTupleData \<Rightarrow> 32 word"
  fetchatt :: "Form_pg_attribute \<Rightarrow> HeapTupleData \<Rightarrow> 32 word \<Rightarrow> Datum"
  att_addlength_pointer :: "32 word \<Rightarrow> int \<Rightarrow> HeapTupleData \<Rightarrow> 32 word"
  float_of_Datum :: "Datum \<Rightarrow> 'd"
  double_of_Datum :: "Datum \<Rightarrow> 'd"
  float_Operation :: "comparison \<Rightarrow> 'd \<Rightarrow> 'd \<Rightarrow> bool"
  Cast_timestamp_dtime :: "64 word \<Rightarrow> error + 64 word"

text \<open>
  \<^verbatim>\<open>value.GetValue<duckdb::dtime_t>()\<close>. A value stored as \<^verbatim>\<open>dtime_t\<close> hands back its
  payload. A timestamp goes through DuckDB's cast from \<^verbatim>\<open>timestamp_t\<close> to \<^verbatim>\<open>dtime_t\<close>,
  which may return a count of microseconds or raise: it is the parameter
  \<open>Cast_timestamp_dtime\<close>, and nothing is assumed about what it returns.
\<close>

fun GetValue_dtime_t :: "'d env \<Rightarrow> 'd Value \<Rightarrow> error + 64 word" where
  "GetValue_dtime_t E (DTimeValue micros) = Inr micros"
| "GetValue_dtime_t E (TimestampValue micros) = Cast_timestamp_dtime E micros"
| "GetValue_dtime_t E _ = Inl DuckValueCast"

text \<open>
  Reading row \<open>index\<close> of a vector back as a value (DuckDB's \<^verbatim>\<open>Vector::GetValue\<close>, which
  the callers of the two files use): the value carries the logical type of the vector,
  not the C++ type the slot was written through. \<^verbatim>\<open>Append<duckdb::dtime_t>\<close> into a
  vector of logical type \<^verbatim>\<open>TIMESTAMP\<close> stores 64 bits, and they are read back as a
  timestamp. Every other slot the conversions write is read back as it was written.
\<close>

definition Vector_GetValue :: "'d Vector \<Rightarrow> nat \<Rightarrow> 'd Value option" where
  "Vector_GetValue vector index =
     (case vec_data vector index of
        Some (DTimeValue micros) \<Rightarrow>
          if type_id (vec_type vector) = TIMESTAMP then Some (TimestampValue micros)
          else Some (DTimeValue micros)
      | cell \<Rightarrow> cell)"

section \<open>Type mapping\<close>

text \<open>DuckDB has date starting from 1/1/1970 while PG starts from 1/1/2000.\<close>

definition QUACK_DUCK_DATE_OFFSET :: "32 word" where
  "QUACK_DUCK_DATE_OFFSET = 10957"

text \<open>
  Modelled from the spec: \<^verbatim>\<open>USECS_PER_DAY\<close> is a constant of the row store's headers;
  the spec gives the timestamp offset as 10957 * 86,400,000,000 microseconds.
\<close>

definition USECS_PER_DAY :: "64 word" where
  "USECS_PER_DAY = 86400000000"

definition QUACK_DUCK_TIMESTAMP_OFFSET :: "64 word" where
  "QUACK_DUCK_TIMESTAMP_OFFSET = 10957 * USECS_PER_DAY"

text \<open>
  \<^verbatim>\<open>((typmod - VARHDRSZ) >> 16) & 0xffff\<close> and
  \<^verbatim>\<open>(((typmod - VARHDRSZ) & 0x7ff) ^ 1024) - 1024\<close> on \<^verbatim>\<open>int32\<close>; the shift of a signed
  integer is arithmetic.
\<close>

definition numeric_typmod_precision :: "32 word \<Rightarrow> 32 word \<Rightarrow> 32 word" where
  "numeric_typmod_precision hdrsz typmod = (signed_drop_bit 16 (typmod - hdrsz)) AND 0xffff"

definition numeric_typmod_scale :: "32 word \<Rightarrow> 32 word \<Rightarrow> 32 word" where
  "numeric_typmod_scale hdrsz typmod = (((typmod - hdrsz) AND 0x7ff) XOR 1024) - 1024"

definition plain_type :: "LogicalTypeId \<Rightarrow> LogicalType" where
  "plain_type t = \<lparr>type_id = t, aux_info = None\<rparr>"

definition ConvertPostgresToDuckColumnType :: "'d env \<Rightarrow> Oid \<Rightarrow> 32 word \<Rightarrow> error + LogicalType" where
  "ConvertPostgresToDuckColumnType E type typmod =
     (case type of
        BOOLOID \<Rightarrow> Inr (plain_type BOOLEAN)
      | CHAROID \<Rightarrow> Inr (plain_type TINYINT)
      | INT2OID \<Rightarrow> Inr (plain_type SMALLINT)
      | INT4OID \<Rightarrow> Inr (plain_type INTEGER)
      | INT8OID \<Rightarrow> Inr (plain_type BIGINT)
      | BPCHAROID \<Rightarrow> Inr (plain_type VARCHAR)
      | TEXTOID \<Rightarrow> Inr (plain_type VARCHAR)
      | VARCHAROID \<Rightarrow> Inr (plain_type VARCHAR)
      | DATEOID \<Rightarrow> Inr (plain_type DATE)
      | TIMESTAMPOID \<Rightarrow> Inr (plain_type TIMESTAMP)
      | FLOAT8OID \<Rightarrow> Inr (plain_type DOUBLE)
      | NUMERICOID \<Rightarrow>
          (let precision = numeric_typmod_precision (VARHDRSZ E) typmod;
               scale = numeric_typmod_scale (VARHDRSZ E) typmod
           in if typmod = - 1 \<or> sint precision < 0 \<or> sint scale < 0 \<or> sint precision > 38
              then Inr \<lparr>type_id = DOUBLE, aux_info = Some NumericAsDouble\<rparr>
              else Inr \<lparr>type_id = DECIMAL, aux_info = Some (DecimalTypeInfo precision scale)\<rparr>)
      | _ \<Rightarrow> Inl (UnsupportedPostgresType type))"

section \<open>Decimal codec\<close>

definition NBASE :: int where
  "NBASE = 10000"

definition DEC_DIGITS :: int where
  "DEC_DIGITS = 4"

text \<open>Conversion of an \<^verbatim>\<open>int\<close> to \<^verbatim>\<open>idx_t\<close> (unsigned, 64 bits).\<close>

definition idx_t_of_int :: "int \<Rightarrow> nat" where
  "idx_t_of_int i = nat (i mod 2 ^ 64)"

definition NumericIsNegative :: "NumericVar \<Rightarrow> bool" where
  "NumericIsNegative numeric = (sign numeric = NUMERIC_NEG)"

text \<open>
  The loop over the integral digit groups: \<^verbatim>\<open>for (; digit_index <= numeric.weight;
  digit_index++)\<close>, entered with \<open>weight \<ge> 0\<close>.
\<close>

function integral_loop :: "'t arith \<Rightarrow> NumericVar \<Rightarrow> nat \<Rightarrow> 't \<Rightarrow> 't" where
  "integral_loop A numeric digit_index integral_part =
     (if int digit_index \<le> weight numeric then
        (let p = T_mul A integral_part (T_of_int A NBASE);
             q = (if digit_index < idx_t_of_int (ndigits numeric)
                  then T_add A p (T_of_int A (digits numeric ! digit_index))
                  else p)
         in integral_loop A numeric (digit_index + 1) q)
      else integral_part)"
  by pat_completeness auto
termination
  by (relation "measure (\<lambda>(A, numeric, digit_index, p). nat (weight numeric + 1 - int digit_index))") auto

text \<open>
  The loop over the fractional digit groups, \<^verbatim>\<open>for (int32_t i = ...; i < numeric.ndigits;
  i++)\<close>: every group but the last is accumulated in base \<open>NBASE\<close>, the last one is
  compensated by \<^verbatim>\<open>fractional_power_correction\<close>.
\<close>

function fractional_loop ::
  "'t arith \<Rightarrow> 't DecimalConversion \<Rightarrow> NumericVar \<Rightarrow> int \<Rightarrow> int \<Rightarrow> 't \<Rightarrow> 't" where
  "fractional_loop A OP numeric fractional_power_correction i fractional_part =
     (if i < ndigits numeric then
        (if i + 1 < ndigits numeric then
           fractional_loop A OP numeric fractional_power_correction (i + 1)
             (T_add A (T_mul A fractional_part (T_of_int A NBASE))
                      (T_of_int A (digits numeric ! nat i)))
         else
           (let final_base = T_of_int A NBASE;
                final_digit = T_of_int A (digits numeric ! nat i);
                compensation =
                  (if fractional_power_correction \<ge> 0
                   then GetPowerOfTen OP (idx_t_of_int fractional_power_correction)
                   else GetPowerOfTen OP (idx_t_of_int (- fractional_power_correction)));
                final_base' =
                  (if fractional_power_correction \<ge> 0 then T_div A final_base compensation
                   else T_mul A final_base compensation);
                final_digit' =
                  (if fractional_power_correction \<ge> 0 then T_div A final_digit compensation
                   else T_mul A final_digit compensation)
            in fractional_loop A OP numeric fractional_power_correction (i + 1)
                 (T_add A (T_mul A fractional_part final_base') final_digit')))
      else fractional_part)"
  by pat_completeness auto
termination
  by (relation "measure (\<lambda>(A, OP, numeric, c, i, p). nat (ndigits numeric - i))") auto

text \<open>
  \<^verbatim>\<open>template <class T, class OP> T ConvertDecimal(const NumericVar &numeric)\<close>. The
  assertion \<^verbatim>\<open>D_ASSERT(fractional_power_correction < 20)\<close> is a branch of the model.
\<close>

definition ConvertDecimal :: "'t arith \<Rightarrow> 't DecimalConversion \<Rightarrow> NumericVar \<Rightarrow> error + 't" where
  "ConvertDecimal A OP numeric =
     (let scale_POWER = GetPowerOfTen OP (idx_t_of_int (dscale numeric)) in
      if ndigits numeric = 0 then Inr (T_of_int A 0)
      else
        (let integral_part =
               (if weight numeric \<ge> 0
                then T_mul A (integral_loop A numeric 1 (T_of_int A (digits numeric ! 0))) scale_POWER
                else T_of_int A 0)
         in if ndigits numeric > weight numeric + 1 then
              (let fractional_power = (ndigits numeric - weight numeric - 1) * DEC_DIGITS;
                   fractional_power_correction = fractional_power - dscale numeric
               in if \<not> fractional_power_correction < 20 then Inl AssertionFailure
                  else
                    (let fractional_part =
                           fractional_loop A OP numeric fractional_power_correction
                             (max 0 (weight numeric + 1)) (T_of_int A 0);
                         base_res = Finalize OP numeric (T_add A integral_part fractional_part)
                     in Inr (if NumericIsNegative numeric then T_neg A base_res else base_res)))
            else
              (let base_res = Finalize OP numeric (T_add A integral_part (T_of_int A 0))
               in Inr (if NumericIsNegative numeric then T_neg A base_res else base_res))))"

text \<open>
  A fixed-width signed integer \<^verbatim>\<open>T\<close>, on values within its range: there its operators
  are those of the integers, with division truncating towards zero. (Outside the range
  C++ leaves signed arithmetic undefined.)
\<close>

definition trunc_div :: "int \<Rightarrow> int \<Rightarrow> int" where
  "trunc_div a b = sgn a * sgn b * (\<bar>a\<bar> div \<bar>b\<bar>)"

definition integer_arith :: "int arith" where
  "integer_arith = \<lparr>T_of_int = (\<lambda>i. i), T_add = (+), T_mul = (*), T_div = trunc_div, T_neg = uminus\<rparr>"

text \<open>
  Modelled from the spec: \<^verbatim>\<open>DecimalConversionInteger\<close>, the policy of the fixed-width
  path, is declared in \<^verbatim>\<open>quack/types/decimal.hpp\<close>. Its power-of-ten helper gives
  \<open>10 ^ n\<close> ("the destination policy's power-of-ten"), and its finalization leaves a
  result within range as it is.
\<close>

definition DecimalConversionInteger :: "int DecimalConversion" where
  "DecimalConversionInteger = \<lparr>GetPowerOfTen = (\<lambda>n. 10 ^ n), Finalize = (\<lambda>numeric r. r)\<rparr>"

text \<open>
  The same template at \<^verbatim>\<open>T = int64_t\<close>, with the width written out: sums, products and
  negation wrap around (\<open>64 word\<close>), and the quotient is that of the two signed readings,
  truncated towards zero.
\<close>

definition int64_arith :: "64 word arith" where
  "int64_arith =
     \<lparr>T_of_int = word_of_int, T_add = (+), T_mul = (*),
      T_div = (\<lambda>a b. word_of_int (trunc_div (sint a) (sint b))), T_neg = uminus\<rparr>"

text \<open>
  Modelled from the spec: the policy \<^verbatim>\<open>DecimalConversionInteger\<close> at this width, its
  power of ten reduced to 64 bits.
\<close>

definition DecimalConversionInteger64 :: "64 word DecimalConversion" where
  "DecimalConversionInteger64 =
     \<lparr>GetPowerOfTen = (\<lambda>n. word_of_int (10 ^ n)), Finalize = (\<lambda>numeric r. r)\<rparr>"

section \<open>Scalar value converter\<close>

definition set_tts_value :: "TupleTableSlot \<Rightarrow> nat \<Rightarrow> Datum \<Rightarrow> TupleTableSlot" where
  "set_tts_value slot col d = slot\<lparr>tts_values := (tts_values slot)[col := d]\<rparr>"

text \<open>
  \<^verbatim>\<open>ConvertDuckToPostgresValue(slot, value, col)\<close>: the slot and the row store's memory
  are passed in and returned. An integer assigned to a \<^verbatim>\<open>Datum\<close> is converted to the
  unsigned 64-bit type, that is sign-extended (\<open>scast\<close>); the subtractions are those of
  \<^verbatim>\<open>int32_t\<close> and \<^verbatim>\<open>int64_t\<close>.
\<close>

definition ConvertDuckToPostgresValue ::
  "'d env \<Rightarrow> memory \<Rightarrow> TupleTableSlot \<Rightarrow> 'd Value \<Rightarrow> nat \<Rightarrow> error + (TupleTableSlot \<times> memory)" where
  "ConvertDuckToPostgresValue E mem slot v col =
     (let oid = atttypid (attrs (tts_tupleDescriptor slot) ! col);
          text_case =
            (case GetValue_string v of Inl e \<Rightarrow> Inl e
             | Inr str \<Rightarrow>
                 (let varchar_len = length str;
                      result = palloc0 E mem (varchar_len + unat (VARHDRSZ E))
                  in Inr (set_tts_value slot col result, mem(result \<mapsto> str))))
      in
      case oid of
        BOOLOID \<Rightarrow>
          (case GetValue_bool v of Inl e \<Rightarrow> Inl e
           | Inr b \<Rightarrow> Inr (set_tts_value slot col (if b then 1 else 0), mem))
      | CHAROID \<Rightarrow>
          (case GetValue_int8_t v of Inl e \<Rightarrow> Inl e
           | Inr w \<Rightarrow> Inr (set_tts_value slot col (scast w), mem))
      | INT2OID \<Rightarrow>
          (case GetValue_int16_t v of Inl e \<Rightarrow> Inl e
           | Inr w \<Rightarrow> Inr (set_tts_value slot col (scast w), mem))
      | INT4OID \<Rightarrow>
          (case GetValue_int32_t v of Inl e \<Rightarrow> Inl e
           | Inr w \<Rightarrow> Inr (set_tts_value slot col (scast w), mem))
      | INT8OID \<Rightarrow>
          (case GetValue_int64_t v of Inl e \<Rightarrow> Inl e
           | Inr w \<Rightarrow> Inr (set_tts_value slot col w, mem))
      | DATEOID \<Rightarrow>
          (case GetValue_date_t v of Inl e \<Rightarrow> Inl e
           | Inr days \<Rightarrow> Inr (set_tts_value slot col (scast (days - QUACK_DUCK_DATE_OFFSET)), mem))
      | TIMESTAMPOID \<Rightarrow>
          (case GetValue_dtime_t E v of Inl e \<Rightarrow> Inl e
           | Inr micros \<Rightarrow> Inr (set_tts_value slot col (micros - QUACK_DUCK_TIMESTAMP_OFFSET), mem))
      | FLOAT8OID \<Rightarrow>
          (case GetValue_double v of Inl e \<Rightarrow> Inl e
           | Inr result_double \<Rightarrow>
               (let desc = tts_tupleDescriptor slot;
                    att = (attrs desc ! col)\<lparr>atttypid := FLOAT8OID, attbyval := True\<rparr>;
                    slot' = slot\<lparr>tts_tupleDescriptor := desc\<lparr>attrs := (attrs desc)[col := att]\<rparr>\<rparr>
                in Inr (set_tts_value slot' col (double_bytes E result_double), mem)))
      | NUMERICOID \<Rightarrow> Inl (UnsupportedPostgresType oid)
      | BPCHAROID \<Rightarrow> text_case
      | TEXTOID \<Rightarrow> text_case
      | VARCHAROID \<Rightarrow> text_case
      | _ \<Rightarrow> Inl (UnsupportedPostgresType oid))"

definition Append :: "'d Vector \<Rightarrow> 'd Value \<Rightarrow> nat \<Rightarrow> 'd Vector" where
  "Append result v offset = result\<lparr>vec_data := (vec_data result)(offset \<mapsto> v)\<rparr>"

text \<open>
  \<^verbatim>\<open>AppendString\<close> reads the text a datum points to and copies it into the vector's own
  string storage.
\<close>

definition AppendString :: "memory \<Rightarrow> 'd Vector \<Rightarrow> Datum \<Rightarrow> nat \<Rightarrow> error + 'd Vector" where
  "AppendString mem result v offset =
     (case mem v of
        None \<Rightarrow> Inl (BadPointer v)
      | Some text \<Rightarrow> Inr (Append result (StringValue text) offset))"

text \<open>
  \<^verbatim>\<open>ConvertPostgresToDuckValue(value, result, offset)\<close>. In the date and timestamp cases
  the offset is added to the \<^verbatim>\<open>Datum\<close> (unsigned, 64 bits) and the sum is cast to
  \<^verbatim>\<open>int32_t\<close> or \<^verbatim>\<open>int64_t\<close>.
\<close>

definition ConvertPostgresToDuckValue ::
  "'d env \<Rightarrow> memory \<Rightarrow> Datum \<Rightarrow> 'd Vector \<Rightarrow> nat \<Rightarrow> error + 'd Vector" where
  "ConvertPostgresToDuckValue E mem v result offset =
     (let type = vec_type result in
      case type_id type of
        BOOLEAN \<Rightarrow> Inr (Append result (BoolValue (DatumGetBool E v)) offset)
      | TINYINT \<Rightarrow> Inr (Append result (Int8Value (DatumGetChar E v)) offset)
      | SMALLINT \<Rightarrow> Inr (Append result (Int16Value (DatumGetInt16 E v)) offset)
      | INTEGER \<Rightarrow> Inr (Append result (Int32Value (DatumGetInt32 E v)) offset)
      | BIGINT \<Rightarrow> Inr (Append result (Int64Value (DatumGetInt64 E v)) offset)
      | VARCHAR \<Rightarrow> AppendString mem result v offset
      | DATE \<Rightarrow> Inr (Append result (DateValue (ucast (v + scast QUACK_DUCK_DATE_OFFSET))) offset)
      | TIMESTAMP \<Rightarrow> Inr (Append result (DTimeValue (v + QUACK_DUCK_TIMESTAMP_OFFSET)) offset)
      | DOUBLE \<Rightarrow>
          (if aux_info type = Some NumericAsDouble then
             (let numeric_var = FromNumeric E v in
              case ConvertDecimal (double_arith E) (DecimalConversionDouble E) numeric_var of
                Inl e \<Rightarrow> Inl e
              | Inr double_val \<Rightarrow> Inr (Append result (DoubleValue double_val) offset))
           else Inr (Append result (DoubleValue (DatumGetFloat8 E v)) offset))
      | DECIMAL \<Rightarrow> Inl DecimalTypeError
      | OTHER_TYPE n \<Rightarrow> Inl (UnsupportedDuckType (type_id type)))"

section \<open>Offset-cache tuple reader\<close>

text \<open>The local variables of \<^verbatim>\<open>HeapTupleFetchNextDatumValue\<close> that its loop changes,
  with the tuple descriptor whose \<^verbatim>\<open>attcacheoff\<close> slots it writes.\<close>

record fetch_vars =
  f_off :: "32 word"
  f_slow :: bool
  f_value :: Datum
  f_isNull :: bool
  f_desc :: TupleDesc

definition set_attcacheoff :: "TupleDesc \<Rightarrow> nat \<Rightarrow> 32 word \<Rightarrow> TupleDesc" where
  "set_attcacheoff tupleDesc attnum off =
     tupleDesc\<lparr>attrs := (attrs tupleDesc)[attnum := (attrs tupleDesc ! attnum)\<lparr>attcacheoff := off\<rparr>]\<rparr>"

text \<open>One pass through the body of the loop, for attribute \<open>attnum\<close>.\<close>

definition fetch_body :: "'d env \<Rightarrow> HeapTupleData \<Rightarrow> nat \<Rightarrow> fetch_vars \<Rightarrow> fetch_vars" where
  "fetch_body E tuple attnum s =
     (let thisatt = attrs (f_desc s) ! attnum in
      if t_hasnulls tuple \<and> att_isnull E attnum (t_bits tuple) then
        s\<lparr>f_value := 0, f_isNull := True, f_slow := True\<rparr>
      else
        (let s1 = s\<lparr>f_isNull := False\<rparr>;
             s2 =
               (if \<not> f_slow s1 \<and> sint (attcacheoff thisatt) \<ge> 0 then
                  s1\<lparr>f_off := attcacheoff thisatt\<rparr>
                else if attlen thisatt = - 1 then
                  (if \<not> f_slow s1 \<and> f_off s1 = att_align_nominal E (f_off s1) (attalign thisatt) then
                     s1\<lparr>f_desc := set_attcacheoff (f_desc s1) attnum (f_off s1)\<rparr>
                   else
                     s1\<lparr>f_off := att_align_pointer E (f_off s1) (attalign thisatt) (- 1) tuple,
                        f_slow := True\<rparr>)
                else
                  (let off = att_align_nominal E (f_off s1) (attalign thisatt) in
                   if \<not> f_slow s1 then
                     s1\<lparr>f_off := off, f_desc := set_attcacheoff (f_desc s1) attnum off\<rparr>
                   else s1\<lparr>f_off := off\<rparr>));
             thisatt' = attrs (f_desc s2) ! attnum;
             s3 = s2\<lparr>f_value := fetchatt E thisatt' tuple (f_off s2)\<rparr>;
             s4 = s3\<lparr>f_off := att_addlength_pointer E (f_off s3) (attlen thisatt') tuple\<rparr>
         in if attlen thisatt' \<le> 0 then s4\<lparr>f_slow := True\<rparr> else s4))"

text \<open>\<^verbatim>\<open>for (; attnum < natts; attnum++)\<close>; the result carries the final \<open>attnum\<close>.\<close>

function fetch_loop ::
  "'d env \<Rightarrow> HeapTupleData \<Rightarrow> nat \<Rightarrow> nat \<Rightarrow> fetch_vars \<Rightarrow> nat \<times> fetch_vars" where
  "fetch_loop E tuple n attnum s =
     (if attnum < n then fetch_loop E tuple n (attnum + 1) (fetch_body E tuple attnum s)
      else (attnum, s))"
  by pat_completeness auto
termination
  by (relation "measure (\<lambda>(E, tuple, n, attnum, s). n - attnum)") auto

text \<open>
  \<^verbatim>\<open>HeapTupleFetchNextDatumValue(tupleDesc, tuple, heapTupleReadState, natts, isNull)\<close>.
  The descriptor, the read state and \<^verbatim>\<open>*isNull\<close> are passed in and returned with the
  datum.
\<close>

definition HeapTupleFetchNextDatumValue ::
  "'d env \<Rightarrow> TupleDesc \<Rightarrow> HeapTupleData \<Rightarrow> HeapTuplePageReadState \<Rightarrow> nat \<Rightarrow> bool
     \<Rightarrow> Datum \<times> bool \<times> HeapTuplePageReadState \<times> TupleDesc" where
  "HeapTupleFetchNextDatumValue E tupleDesc tuple heapTupleReadState n isNull =
     (let n' = min (t_natts tuple) n;
          attnum = m_nvalid heapTupleReadState;
          st = (if attnum = 0 then heapTupleReadState\<lparr>m_slow := False\<rparr> else heapTupleReadState);
          off = (if attnum = 0 then 0 else m_offset heapTupleReadState);
          slow = (if attnum = 0 then False else m_slow heapTupleReadState);
          (attnum', s) =
            fetch_loop E tuple n' attnum
              \<lparr>f_off = off, f_slow = slow, f_value = 0, f_isNull = isNull, f_desc = tupleDesc\<rparr>
      in (f_value s, f_isNull s,
          st\<lparr>m_nvalid := attnum', m_offset := f_off s, m_slow := f_slow s\<rparr>,
          f_desc s))"

definition SetInvalid :: "'d Vector \<Rightarrow> nat \<Rightarrow> 'd Vector" where
  "SetInvalid result offset = result\<lparr>vec_invalid := insert offset (vec_invalid result)\<rparr>"

text \<open>
  The loop of \<^verbatim>\<open>InsertTupleIntoChunk\<close> over the columns \<open>i < n\<close>. An error of the
  converter ends it; the descriptor written so far stays as it is.
\<close>

function insert_loop ::
  "'d env \<Rightarrow> memory \<Rightarrow> HeapTupleData \<Rightarrow> nat \<Rightarrow> nat \<Rightarrow> nat
     \<Rightarrow> 'd DataChunk \<times> TupleDesc \<times> HeapTuplePageReadState
     \<Rightarrow> (error + 'd DataChunk) \<times> TupleDesc \<times> HeapTuplePageReadState" where
  "insert_loop E mem slot offset n i (output, tupleDesc, heapTupleReadState) =
     (if i < n then
        (let result = chunk_data output ! i;
             (v, isNull, st', tupleDesc') =
               HeapTupleFetchNextDatumValue E tupleDesc slot heapTupleReadState (i + 1) False
         in if isNull then
              insert_loop E mem slot offset n (i + 1)
                (output\<lparr>chunk_data := (chunk_data output)[i := SetInvalid result offset]\<rparr>,
                 tupleDesc', st')
            else
              (case ConvertPostgresToDuckValue E mem v result offset of
                 Inl e \<Rightarrow> (Inl e, tupleDesc', st')
               | Inr result' \<Rightarrow>
                   insert_loop E mem slot offset n (i + 1)
                     (output\<lparr>chunk_data := (chunk_data output)[i := result']\<rparr>, tupleDesc', st')))
      else (Inr output, tupleDesc, heapTupleReadState))"
  by pat_completeness auto
termination
  by (relation "measure (\<lambda>(E, mem, slot, offset, n, i, x). n - i)") auto

definition InsertTupleIntoChunk ::
  "'d env \<Rightarrow> memory \<Rightarrow> 'd DataChunk \<Rightarrow> TupleDesc \<Rightarrow> HeapTupleData \<Rightarrow> nat
     \<Rightarrow> (error + 'd DataChunk) \<times> TupleDesc" where
  "InsertTupleIntoChunk E mem output tupleDesc slot offset =
     (let heapTupleReadState = \<lparr>m_slow = False, m_nvalid = 0, m_offset = 0\<rparr>;
          (r, tupleDesc', st) =
            insert_loop E mem slot offset (natts tupleDesc) 0 (output, tupleDesc, heapTupleReadState)
      in (r, tupleDesc'))"

section \<open>Filter evaluator\<close>

text \<open>
  Modelled from the spec: \<^verbatim>\<open>PGDUCKDB_DUCK_DATE_OFFSET\<close> and
  \<^verbatim>\<open>PGDUCKDB_DUCK_TIMESTAMP_OFFSET\<close> are declared in \<^verbatim>\<open>pgduckdb/pgduckdb_types.hpp\<close>;
  the spec gives the epoch offset as 10957 days and 10957 * 86,400,000,000 microseconds.
\<close>

definition PGDUCKDB_DUCK_DATE_OFFSET :: "32 word" where
  "PGDUCKDB_DUCK_DATE_OFFSET = 10957"

definition PGDUCKDB_DUCK_TIMESTAMP_OFFSET :: "64 word" where
  "PGDUCKDB_DUCK_TIMESTAMP_OFFSET = 10957 * 86400000000"

datatype ExpressionType =
    COMPARE_EQUAL | COMPARE_LESSTHAN | COMPARE_LESSTHANOREQUALTO
  | COMPARE_GREATERTHAN | COMPARE_GREATERTHANOREQUALTO
  | OTHER_EXPRESSION nat

text \<open>
  The constant of a comparison is a \<^verbatim>\<open>duckdb::Value\<close> that the filter code reads only
  through \<^verbatim>\<open>GetValueUnsafe<T>\<close>: it is modelled by what those calls return.
\<close>

record 'd Constant =
  GetValueUnsafe_bool :: bool
  GetValueUnsafe_uint8_t :: "8 word"
  GetValueUnsafe_int16_t :: "16 word"
  GetValueUnsafe_int32_t :: "32 word"
  GetValueUnsafe_int64_t :: "64 word"
  GetValueUnsafe_float :: 'd
  GetValueUnsafe_double :: 'd

datatype 'd TableFilter =
    ConjunctionAndFilter "'d TableFilter list"
  | ConstantFilter ExpressionType "'d Constant"
  | IsNotNullFilter
  | IsNullFilter
  | OtherFilter nat

text \<open>\<^verbatim>\<open>OP::Operation(left, right)\<close> on a linearly ordered type.\<close>

fun Operation :: "comparison \<Rightarrow> 'a::linorder \<Rightarrow> 'a \<Rightarrow> bool" where
  "Operation Equals left right = (left = right)"
| "Operation LessThan left right = (left < right)"
| "Operation LessThanEquals left right = (left \<le> right)"
| "Operation GreaterThan left right = (left > right)"
| "Operation GreaterThanEquals left right = (left \<ge> right)"

text \<open>
  \<^verbatim>\<open>FilterOperationSwitch<OP>(value, constant, type_oid)\<close>, with
  \<^verbatim>\<open>TemplatedFilterOperation<T, OP>\<close> unfolded: \<^verbatim>\<open>(T)value\<close> against
  \<^verbatim>\<open>constant.GetValueUnsafe<T>()\<close>. Unsigned words are compared as they are, signed
  ones through \<open>sint\<close>.
\<close>

definition FilterOperationSwitch ::
  "'d env \<Rightarrow> comparison \<Rightarrow> Datum \<Rightarrow> 'd Constant \<Rightarrow> Oid \<Rightarrow> error + bool" where
  "FilterOperationSwitch E OP v constant type_oid =
     (case type_oid of
        BOOLOID \<Rightarrow> Inr (Operation OP (v \<noteq> 0) (GetValueUnsafe_bool constant))
      | CHAROID \<Rightarrow> Inr (Operation OP (ucast v :: 8 word) (GetValueUnsafe_uint8_t constant))
      | INT2OID \<Rightarrow>
          Inr (Operation OP (sint (ucast v :: 16 word)) (sint (GetValueUnsafe_int16_t constant)))
      | INT4OID \<Rightarrow>
          Inr (Operation OP (sint (ucast v :: 32 word)) (sint (GetValueUnsafe_int32_t constant)))
      | INT8OID \<Rightarrow> Inr (Operation OP (sint v) (sint (GetValueUnsafe_int64_t constant)))
      | FLOAT4OID \<Rightarrow>
          Inr (float_Operation E OP (float_of_Datum E v) (GetValueUnsafe_float constant))
      | FLOAT8OID \<Rightarrow>
          Inr (float_Operation E OP (double_of_Datum E v) (GetValueUnsafe_double constant))
      | DATEOID \<Rightarrow>
          (let date_datum = (scast (ucast (v + scast PGDUCKDB_DUCK_DATE_OFFSET) :: 32 word) :: Datum)
           in Inr (Operation OP (sint (ucast date_datum :: 32 word))
                     (sint (GetValueUnsafe_int32_t constant))))
      | TIMESTAMPOID \<Rightarrow>
          (let timestamp_datum = v + PGDUCKDB_DUCK_TIMESTAMP_OFFSET
           in Inr (Operation OP (sint timestamp_datum) (sint (GetValueUnsafe_int64_t constant))))
      | _ \<Rightarrow> Inl (FilterUnsupportedType type_oid))"

text \<open>
  \<^verbatim>\<open>ApplyValueFilter(filter, value, is_null, type_oid)\<close>. \<open>conjunction_loop\<close> is the
  loop over \<^verbatim>\<open>conjunction.child_filters\<close> with its accumulator
  \<^verbatim>\<open>value_filter_result\<close>; an error raised by a child leaves the loop. The two
  \<^verbatim>\<open>D_ASSERT(0)\<close> are branches of the model.
\<close>

fun ApplyValueFilter ::
      "'d env \<Rightarrow> 'd TableFilter \<Rightarrow> Datum \<Rightarrow> bool \<Rightarrow> Oid \<Rightarrow> error + bool"
  and conjunction_loop ::
      "'d env \<Rightarrow> 'd TableFilter list \<Rightarrow> bool \<Rightarrow> Datum \<Rightarrow> bool \<Rightarrow> Oid \<Rightarrow> error + bool" where
  "ApplyValueFilter E (ConjunctionAndFilter child_filters) v is_null type_oid =
     conjunction_loop E child_filters True v is_null type_oid"
| "ApplyValueFilter E (ConstantFilter comparison_type constant) v is_null type_oid =
     (case comparison_type of
        COMPARE_EQUAL \<Rightarrow> FilterOperationSwitch E Equals v constant type_oid
      | COMPARE_LESSTHAN \<Rightarrow> FilterOperationSwitch E LessThan v constant type_oid
      | COMPARE_LESSTHANOREQUALTO \<Rightarrow> FilterOperationSwitch E LessThanEquals v constant type_oid
      | COMPARE_GREATERTHAN \<Rightarrow> FilterOperationSwitch E GreaterThan v constant type_oid
      | COMPARE_GREATERTHANOREQUALTO \<Rightarrow>
          FilterOperationSwitch E GreaterThanEquals v constant type_oid
      | OTHER_EXPRESSION n \<Rightarrow> Inl AssertionFailure)"
| "ApplyValueFilter E IsNotNullFilter v is_null type_oid = Inr (is_null = False)"
| "ApplyValueFilter E IsNullFilter v is_null type_oid = Inr (is_null = True)"
| "ApplyValueFilter E (OtherFilter n) v is_null type_oid = Inl AssertionFailure"
| "conjunction_loop E [] value_filter_result v is_null type_oid = Inr value_filter_result"
| "conjunction_loop E (child_filter # rest) value_filter_result v is_null type_oid =
     (case ApplyValueFilter E child_filter v is_null type_oid of
        Inl e \<Rightarrow> Inl e
      | Inr b \<Rightarrow> conjunction_loop E rest (value_filter_result \<and> b) v is_null type_oid)"

section \<open>Vocabulary of the statements\<close>

text \<open>
  The two conditions under which the loop body sets \<^verbatim>\<open>slow\<close> on account of the
  attribute it visits: \<^verbatim>\<open>hasnulls && att_isnull(attnum, bp)\<close> (the attribute is null)
  and \<^verbatim>\<open>thisatt->attlen <= 0\<close> (its length is variable or otherwise not positive).
\<close>

definition forces_slow :: "'d env \<Rightarrow> HeapTupleData \<Rightarrow> TupleDesc \<Rightarrow> nat \<Rightarrow> bool" where
  "forces_slow E tuple tupleDesc i =
     ((t_hasnulls tuple \<and> att_isnull E i (t_bits tuple)) \<or> attlen (attrs tupleDesc ! i) \<le> 0)"

text \<open>What holds of the descriptor and the cursor between two columns of a row.\<close>

definition row_inv ::
  "'d env \<Rightarrow> HeapTupleData \<Rightarrow> TupleDesc \<Rightarrow> nat \<Rightarrow> TupleDesc \<Rightarrow> HeapTuplePageReadState \<Rightarrow> bool" where
  "row_inv E tuple desc0 c desc st \<longleftrightarrow>
     m_nvalid st = min c (t_natts tuple)
     \<and> (\<forall>i < m_nvalid st. forces_slow E tuple desc0 i \<longrightarrow> m_slow st)
     \<and> (\<forall>k. attlen (attrs desc ! k) = attlen (attrs desc0 ! k))
     \<and> (\<forall>i j. i < j \<and> forces_slow E tuple desc0 i \<longrightarrow> attrs desc ! j = attrs desc0 ! j)"

text \<open>
  What a sign/weight/digit-group decomposition denotes: the digit group at index \<open>i\<close>
  counts \<open>10000\<close> to the power \<open>weight - i\<close>.
\<close>

definition numeric_magnitude :: "NumericVar \<Rightarrow> real" where
  "numeric_magnitude numeric =
     (\<Sum>i<length (digits numeric).
        real_of_int (digits numeric ! i) * 10000 powi (weight numeric - int i))"


text \<open>
  The sums that the loops of \<^verbatim>\<open>ConvertDecimal\<close> compute, named for the proofs:
  the digit group at an index (0 past the stored groups), the compensated base and digit
  of the last group, the integral groups, the fractional groups, all groups, the
  correction \<^verbatim>\<open>fractional_power_correction\<close>, and the magnitude they add up to.
\<close>

definition group_at :: "NumericVar \<Rightarrow> nat \<Rightarrow> int" where
  "group_at numeric i = (if i < length (digits numeric) then digits numeric ! i else 0)"

definition final_base :: "int \<Rightarrow> int" where
  "final_base c = (if c \<ge> 0 then trunc_div 10000 (10 ^ nat c) else 10000 * 10 ^ nat (- c))"

definition final_digit :: "int \<Rightarrow> int \<Rightarrow> int" where
  "final_digit c d = (if c \<ge> 0 then trunc_div d (10 ^ nat c) else d * 10 ^ nat (- c))"

definition integral_sum :: "NumericVar \<Rightarrow> int" where
  "integral_sum numeric =
     (if weight numeric \<ge> 0
      then (\<Sum>i<Suc (nat (weight numeric)). group_at numeric i * 10000 ^ (nat (weight numeric) - i))
      else 0)"

definition fraction_sum :: "NumericVar \<Rightarrow> int" where
  "fraction_sum numeric =
     (\<Sum>k = nat (max 0 (weight numeric + 1))..<length (digits numeric).
        digits numeric ! k * 10000 ^ (length (digits numeric) - 1 - k))"

definition all_groups_sum :: "NumericVar \<Rightarrow> int" where
  "all_groups_sum numeric =
     (\<Sum>i<length (digits numeric). digits numeric ! i * 10000 ^ (length (digits numeric) - 1 - i))"

definition correction :: "NumericVar \<Rightarrow> int" where
  "correction numeric =
     (int (length (digits numeric)) - weight numeric - 1) * 4 - dscale numeric"

definition decoded_magnitude :: "NumericVar \<Rightarrow> int" where
  "decoded_magnitude numeric =
     (if length (digits numeric) = 0 then 0
      else integral_sum numeric * 10 ^ nat (dscale numeric)
         + (if int (length (digits numeric)) > weight numeric + 1
            then (if correction numeric \<ge> 0
                  then fraction_sum numeric div 10 ^ nat (correction numeric)
                  else fraction_sum numeric * 10 ^ nat (- correction numeric))
            else 0))"

text \<open>
  An unpacked numeric is well formed for the codec when \<open>ndigits\<close> counts its digit
  groups, no group is negative, the scale is not negative, and the stored digits reach at
  most one group past the scale.
\<close>

definition wf_numeric :: "NumericVar \<Rightarrow> bool" where
  "wf_numeric numeric \<longleftrightarrow>
     ndigits numeric = int (length (digits numeric))
     \<and> ndigits numeric < 2 ^ 31
     \<and> (\<forall>d \<in> set (digits numeric). 0 \<le> d)
     \<and> 0 \<le> dscale numeric \<and> dscale numeric < 2 ^ 31
     \<and> correction numeric \<le> 4"

section \<open>An instance of the parameters, and sample inputs\<close>

text \<open>
  To run the model on concrete inputs the parameters need values. \<open>sample_env\<close> is
  written after the headers of PostgreSQL on a little-endian machine for the datum
  accessors and the tuple-layout macros (variable-length values with a one-byte header
  only); integers stand in for floating-point numbers, and the numeric unpacking and the
  allocator are stand-ins as well. DuckDB's cast of a timestamp to \<^verbatim>\<open>dtime_t\<close> is given no
  value: a run that reaches it stops with \<open>DuckValueCast\<close>. No theorem below depends on
  \<open>sample_env\<close> except the ones that evaluate the model at a concrete input.
\<close>

definition le_bytes :: "8 word list \<Rightarrow> Datum" where
  "le_bytes bs = foldr (\<lambda>b acc. ucast b + 256 * acc) bs 0"

text \<open>
  \<^verbatim>\<open>fetch_att\<close> on an attribute passed by value: eight bytes are the datum itself, and
  four, two or one are read as \<^verbatim>\<open>int32\<close>, \<^verbatim>\<open>int16\<close> or \<^verbatim>\<open>char\<close> and converted to a datum,
  which extends the sign.
\<close>

definition byval_datum :: "int \<Rightarrow> 8 word list \<Rightarrow> Datum" where
  "byval_datum len bs =
     (if len = 8 then le_bytes bs
      else if len = 4 then scast (ucast (le_bytes bs) :: 32 word)
      else if len = 2 then scast (ucast (le_bytes bs) :: 16 word)
      else scast (ucast (le_bytes bs) :: 8 word))"

definition sample_align :: "32 word \<Rightarrow> char \<Rightarrow> 32 word" where
  "sample_align off a =
     (if a = CHR ''c'' then off
      else if a = CHR ''i'' then (off + 3) AND NOT 3
      else if a = CHR ''d'' then (off + 7) AND NOT 7
      else (off + 1) AND NOT 1)"

definition sample_env :: "int env" where
  "sample_env =
     \<lparr>VARHDRSZ = 4,
      DatumGetBool = (\<lambda>d. d \<noteq> 0),
      DatumGetChar = ucast,
      DatumGetInt16 = ucast,
      DatumGetInt32 = ucast,
      DatumGetInt64 = (\<lambda>d. d),
      DatumGetFloat8 = sint,
      double_bytes = word_of_int,
      FromNumeric = (\<lambda>d. \<lparr>ndigits = 1, weight = 0, sign = NUMERIC_POS, dscale = 0,
                              digits = [uint d mod 10000]\<rparr>),
      palloc0 = (\<lambda>mem n. 4096),
      double_arith = integer_arith,
      DecimalConversionDouble = DecimalConversionInteger,
      att_isnull = (\<lambda>attnum bits. \<not> bit (bits ! (attnum div 8)) (attnum mod 8)),
      att_align_nominal = sample_align,
      att_align_pointer =
        (\<lambda>off a l t. if t_bytes t ! unat off \<noteq> 0 then off else sample_align off a),
      fetchatt =
        (\<lambda>att t off.
           if attbyval att
           then byval_datum (attlen att) (take (nat (attlen att)) (drop (unat off) (t_bytes t)))
           else 4096 + ucast off),
      att_addlength_pointer =
        (\<lambda>off l t. if l > 0 then off + word_of_int l
                   else off + ucast (drop_bit 1 (t_bytes t ! unat off))),
      float_of_Datum = uint,
      double_of_Datum = uint,
      float_Operation = Operation,
      Cast_timestamp_dtime = (\<lambda>micros. Inl DuckValueCast)\<rparr>"

text \<open>A slot with a date and a timestamp attribute, for the concrete runs below.\<close>

definition sample_slot :: TupleTableSlot where
  "sample_slot =
     \<lparr>tts_tupleDescriptor =
        \<lparr>attrs =
           [\<lparr>atttypid = DATEOID, attlen = 4, attalign = CHR ''i'', attbyval = True,
             attcacheoff = - 1\<rparr>,
            \<lparr>atttypid = TIMESTAMPOID, attlen = 8, attalign = CHR ''d'', attbyval = True,
             attcacheoff = - 1\<rparr>]\<rparr>,
      tts_values = [0, 0]\<rparr>"

text \<open>Comparison constants holding one 32-bit integer or one byte, for the concrete runs.\<close>

definition int32_constant :: "32 word \<Rightarrow> int Constant" where
  "int32_constant k =
     \<lparr>GetValueUnsafe_bool = False, GetValueUnsafe_uint8_t = 0, GetValueUnsafe_int16_t = 0,
      GetValueUnsafe_int32_t = k, GetValueUnsafe_int64_t = 0, GetValueUnsafe_float = 0,
      GetValueUnsafe_double = 0\<rparr>"

definition uint8_constant :: "8 word \<Rightarrow> int Constant" where
  "uint8_constant k =
     \<lparr>GetValueUnsafe_bool = False, GetValueUnsafe_uint8_t = k, GetValueUnsafe_int16_t = 0,
      GetValueUnsafe_int32_t = 0, GetValueUnsafe_int64_t = 0, GetValueUnsafe_float = 0,
      GetValueUnsafe_double = 0\<rparr>"

text \<open>A slot with one attribute of type \<open>CHAROID\<close>.\<close>

definition char_slot :: TupleTableSlot where
  "char_slot =
     \<lparr>tts_tupleDescriptor =
        \<lparr>attrs = [\<lparr>atttypid = CHAROID, attlen = 1, attalign = CHR ''c'', attbyval = True,
                   attcacheoff = - 1\<rparr>]\<rparr>,
      tts_values = [0]\<rparr>"

text \<open>
  The row of the spec's example, \<^verbatim>\<open>[int32 = 7, null, text = "ab"]\<close>: its descriptor with
  empty offset caches, the tuple (null bitmap \<open>101\<close>, the four bytes of 7, then the
  text with its one-byte header), the memory holding the text, and a chunk of three
  empty vectors.
\<close>

definition int4_att :: Form_pg_attribute where
  "int4_att = \<lparr>atttypid = INT4OID, attlen = 4, attalign = CHR ''i'', attbyval = True,
               attcacheoff = - 1\<rparr>"

definition text_att :: Form_pg_attribute where
  "text_att = \<lparr>atttypid = TEXTOID, attlen = - 1, attalign = CHR ''i'', attbyval = False,
               attcacheoff = - 1\<rparr>"

definition empty_vector :: "LogicalTypeId \<Rightarrow> int Vector" where
  "empty_vector t =
     \<lparr>vec_type = \<lparr>type_id = t, aux_info = None\<rparr>, vec_data = Map.empty, vec_invalid = {}\<rparr>"

definition row_desc :: TupleDesc where
  "row_desc = \<lparr>attrs = [int4_att, int4_att, text_att]\<rparr>"

definition row_tuple :: HeapTupleData where
  "row_tuple = \<lparr>t_natts = 3, t_hasnulls = True, t_bits = [5],
                t_bytes = [7, 0, 0, 0, 7, 97, 98]\<rparr>"

definition row_memory :: memory where
  "row_memory = [4100 \<mapsto> [97, 98]]"

definition row_chunk :: "int DataChunk" where
  "row_chunk = \<lparr>chunk_data = [empty_vector INTEGER, empty_vector INTEGER, empty_vector VARCHAR]\<rparr>"

text \<open>
  A tuple with three \<^verbatim>\<open>int32\<close> attributes (7, 8, 9) and no nulls, read under a
  descriptor of five \<^verbatim>\<open>int32\<close> columns into a chunk of five empty vectors.
\<close>

definition short_tuple :: HeapTupleData where
  "short_tuple = \<lparr>t_natts = 3, t_hasnulls = False, t_bits = [],
                  t_bytes = [7, 0, 0, 0, 8, 0, 0, 0, 9, 0, 0, 0]\<rparr>"

definition wide_desc :: TupleDesc where
  "wide_desc = \<lparr>attrs = [int4_att, int4_att, int4_att, int4_att, int4_att]\<rparr>"

definition wide_chunk :: "int DataChunk" where
  "wide_chunk =
     \<lparr>chunk_data = [empty_vector INTEGER, empty_vector INTEGER, empty_vector INTEGER,
                     empty_vector INTEGER, empty_vector INTEGER]\<rparr>"

text \<open>The same tuple under a descriptor whose fourth column is a text column.\<close>

definition text_tail_desc :: TupleDesc where
  "text_tail_desc = \<lparr>attrs = [int4_att, int4_att, int4_att, text_att]\<rparr>"

definition text_tail_chunk :: "int DataChunk" where
  "text_tail_chunk =
     \<lparr>chunk_data = [empty_vector INTEGER, empty_vector INTEGER, empty_vector INTEGER,
                     empty_vector VARCHAR]\<rparr>"



definition numeric_12345 :: NumericVar where
  "numeric_12345 = \<lparr>ndigits = 2, weight = 1, sign = NUMERIC_POS, dscale = 0, digits = [1, 2345]\<rparr>"

definition numeric_minus_hundredth :: NumericVar where
  "numeric_minus_hundredth =
     \<lparr>ndigits = 1, weight = - 1, sign = NUMERIC_NEG, dscale = 2, digits = [100]\<rparr>"



section \<open>Casts between machine integers\<close>

lemma word32_of_take_bit_64: "(word_of_int (take_bit 64 x) :: 32 word) = word_of_int x"
  using word_of_int_eq_iff [where ?'a = 32, of "take_bit 64 x" x] by simp

lemma ucast_64_32_add: "(ucast ((a :: 64 word) + b) :: 32 word) = ucast a + ucast b"
proof -
  have "(ucast (a + b) :: 32 word) = word_of_int (take_bit 64 (uint a + uint b))"
    unfolding ucast_eq uint_word_arith_bintrs by simp
  also have "\<dots> = word_of_int (uint a + uint b)"
    by (rule word32_of_take_bit_64)
  also have "\<dots> = ucast a + ucast b"
    unfolding ucast_eq by simp
  finally show ?thesis .
qed

lemma ucast_scast_32_64: "(ucast (scast (d :: 32 word) :: 64 word) :: 32 word) = d"
  by (rule bit_word_eqI) (auto simp add: bit_word_ucast_iff bit_word_scast_iff)

lemma date_cast: "(ucast ((scast (d :: 32 word) :: 64 word) + scast (k :: 32 word)) :: 32 word) = d + k"
  by (simp add: ucast_64_32_add ucast_scast_32_64)

section \<open>Type modifiers and the numeric fallback\<close>

lemma mask11: "(x::32 word) AND 0x7ff = take_bit 11 x"
proof -
  have "(0x7ff::32 word) = mask 11" by (simp add: mask_eq_exp_minus_1)
  then show ?thesis by (simp add: take_bit_eq_mask)
qed

lemma mask16: "(x::32 word) AND 0xffff = take_bit 16 x"
proof -
  have "(0xffff::32 word) = mask 16" by (simp add: mask_eq_exp_minus_1)
  then show ?thesis by (simp add: take_bit_eq_mask)
qed

lemma xor1024: "(y::32 word) XOR 1024 = flip_bit 10 y"
  by (simp add: flip_bit_def)

lemma scale_signed_take_bit: "numeric_typmod_scale h m = signed_take_bit 10 (m - h)"
proof -
  define x where "x = m - h"
  have b: "bit (take_bit 11 x) 10 = bit x 10" by (simp add: bit_take_bit_iff)
  have "((take_bit 11 x) XOR 1024) - 1024 = take_bit 11 x - 2 ^ 11 * of_bool (bit x 10)"
    unfolding xor1024 flip_bit_eq_if
    by (cases "bit x 10") (simp_all add: b set_bit_eq unset_bit_eq)
  then show ?thesis
    unfolding numeric_typmod_scale_def mask11 x_def[symmetric]
    by (simp add: signed_take_bit_eq_take_bit_minus)
qed

lemma scale_sign_extension: "numeric_typmod_scale h m = scast (ucast (m - h) :: 11 word)"
  unfolding scale_signed_take_bit
  apply (rule bit_word_eqI)
  apply (auto simp add: bit_signed_take_bit_iff bit_word_scast_iff bit_word_ucast_iff min_def not_le)
   apply (subgoal_tac "n = 10"; simp)+
  done

lemma scale_negative_iff: "bit (m - h) 10 \<longleftrightarrow> sint (numeric_typmod_scale h m) < 0"
  unfolding scale_signed_take_bit
  by (simp add: bit_last_iff[symmetric] bit_signed_take_bit_iff)

lemma scale_sint: "sint (numeric_typmod_scale h m) = sint (ucast (m - h) :: 11 word)"
  unfolding scale_sign_extension
  by (simp add: sint_up_scast is_up)

lemma precision_drop_bit: "numeric_typmod_precision h m = drop_bit 16 (m - h)"
  unfolding numeric_typmod_precision_def mask16
  apply (rule bit_word_eqI)
  apply (auto simp add: bit_take_bit_iff bit_signed_drop_bit_iff bit_drop_bit_eq dest: bit_imp_le_length)
  done

lemma precision_sint: "sint (numeric_typmod_precision h m) = uint (m - h) div 2 ^ 16"
proof -
  define d where "d = drop_bit 16 (m - h)"
  have e: "uint d = uint (m - h) div 2 ^ 16"
    by (simp add: d_def drop_bit_eq_div uint_div_distrib)
  have "uint (m - h) < 2 ^ 32" using uint_bounded[of "m - h"] by simp
  with e have hi: "uint d < 2 ^ 31" by simp
  have lo: "- (2 ^ 31) \<le> uint d" by (rule order_trans[OF _ uint_ge_0]) simp
  have "sint d = uint d"
    unfolding sint_uint using lo hi by (simp add: signed_take_bit_int_eq_self)
  then show ?thesis unfolding precision_drop_bit d_def[symmetric] using e by simp
qed

text \<open>
  Claim C7. For every 32-bit type modifier \<open>m\<close> and header size, the decoded precision
  is bits 16 to 31 of \<open>m - hdrsz\<close> (the difference shifted down by 16, a number from 0
  to 65535), and the decoded scale is bits 0 to 10 of \<open>m - hdrsz\<close> read as an 11-bit
  two's-complement number, sign-extended to 32 bits: it is negative exactly when bit 10
  is set.
\<close>

theorem numeric_typmod_bit_layout:
  "numeric_typmod_precision hdrsz m = drop_bit 16 (m - hdrsz)
   \<and> sint (numeric_typmod_precision hdrsz m) = uint (m - hdrsz) div 2 ^ 16
   \<and> numeric_typmod_scale hdrsz m = scast (ucast (m - hdrsz) :: 11 word)
   \<and> sint (numeric_typmod_scale hdrsz m) = sint (ucast (m - hdrsz) :: 11 word)
   \<and> (bit (m - hdrsz) 10 \<longleftrightarrow> sint (numeric_typmod_scale hdrsz m) < 0)"
  using precision_drop_bit precision_sint scale_sign_extension scale_sint scale_negative_iff
  by blast


text \<open>
  Claim C6. For a numeric column whose type modifier is absent (\<open>- 1\<close>), or whose
  decoded precision exceeds 38, or whose decoded precision or scale is negative, the type
  mapping returns \<open>DOUBLE\<close> carrying the \<open>NumericAsDouble\<close> marker; and the
  row-to-column converter, on a \<open>DOUBLE\<close> vector with that marker, stores what
  \<open>ConvertDecimal\<close> with the double policy decodes from the unpacked numeric, whereas
  on a \<open>DOUBLE\<close> vector without it it stores the datum read as a plain float8.
\<close>

theorem numeric_as_double_fallback:
  assumes "typmod = - 1
      \<or> sint (numeric_typmod_precision (VARHDRSZ E) typmod) > 38
      \<or> sint (numeric_typmod_precision (VARHDRSZ E) typmod) < 0
      \<or> sint (numeric_typmod_scale (VARHDRSZ E) typmod) < 0"
    and "type_id (vec_type result) = DOUBLE"
    and "aux_info (vec_type result) = Some NumericAsDouble"
    and "type_id (vec_type plain) = DOUBLE"
    and "aux_info (vec_type plain) \<noteq> Some NumericAsDouble"
  shows "ConvertPostgresToDuckColumnType E NUMERICOID typmod =
           Inr \<lparr>type_id = DOUBLE, aux_info = Some NumericAsDouble\<rparr>
    \<and> ConvertPostgresToDuckValue E mem v result offset =
         (case ConvertDecimal (double_arith E) (DecimalConversionDouble E) (FromNumeric E v) of
            Inl e \<Rightarrow> Inl e
          | Inr double_val \<Rightarrow> Inr (Append result (DoubleValue double_val) offset))
    \<and> ConvertPostgresToDuckValue E mem v plain offset =
         Inr (Append plain (DoubleValue (DatumGetFloat8 E v)) offset)"
  using assms
  by (auto simp add: ConvertPostgresToDuckColumnType_def ConvertPostgresToDuckValue_def Let_def)

theorem numeric_as_double_fallback_witness:
  "ConvertPostgresToDuckColumnType sample_env NUMERICOID (- 1) =
           Inr \<lparr>type_id = DOUBLE, aux_info = Some NumericAsDouble\<rparr>
    \<and> ConvertPostgresToDuckValue sample_env Map.empty 42
        \<lparr>vec_type = \<lparr>type_id = DOUBLE, aux_info = Some NumericAsDouble\<rparr>,
         vec_data = Map.empty, vec_invalid = {}\<rparr> 0 =
         Inr (Append \<lparr>vec_type = \<lparr>type_id = DOUBLE, aux_info = Some NumericAsDouble\<rparr>,
                vec_data = Map.empty, vec_invalid = {}\<rparr> (DoubleValue 42) 0)
    \<and> ConvertPostgresToDuckValue sample_env Map.empty 42
        \<lparr>vec_type = \<lparr>type_id = DOUBLE, aux_info = None\<rparr>,
         vec_data = Map.empty, vec_invalid = {}\<rparr> 0 =
         Inr (Append \<lparr>vec_type = \<lparr>type_id = DOUBLE, aux_info = None\<rparr>,
                vec_data = Map.empty, vec_invalid = {}\<rparr> (DoubleValue 42) 0)"
proof -
  let ?r = "\<lparr>vec_type = \<lparr>type_id = DOUBLE, aux_info = Some NumericAsDouble\<rparr>,
         vec_data = Map.empty, vec_invalid = {}\<rparr> :: int Vector"
  let ?p = "\<lparr>vec_type = \<lparr>type_id = DOUBLE, aux_info = None\<rparr>,
         vec_data = Map.empty, vec_invalid = {}\<rparr> :: int Vector"
  have a: "(- 1 :: 32 word) = - 1
      \<or> sint (numeric_typmod_precision (VARHDRSZ sample_env) (- 1)) > 38
      \<or> sint (numeric_typmod_precision (VARHDRSZ sample_env) (- 1)) < 0
      \<or> sint (numeric_typmod_scale (VARHDRSZ sample_env) (- 1)) < 0" by simp
  have b: "type_id (vec_type ?r) = DOUBLE" "aux_info (vec_type ?r) = Some NumericAsDouble"
    by simp_all
  have c: "type_id (vec_type ?p) = DOUBLE" "aux_info (vec_type ?p) \<noteq> Some NumericAsDouble"
    by simp_all
  have d: "ConvertDecimal (double_arith sample_env) (DecimalConversionDouble sample_env)
             (FromNumeric sample_env 42) = Inr 42"
    by (simp add: sample_env_def ConvertDecimal_def integer_arith_def DecimalConversionInteger_def
        NumericIsNegative_def idx_t_of_int_def)
  have e: "DatumGetFloat8 sample_env 42 = 42" by (simp add: sample_env_def)
  show ?thesis
    using numeric_as_double_fallback [OF a b c, of Map.empty 42 0] d e
    by simp
qed

section \<open>The converter on numerics, dates and timestamps\<close>

text \<open>
  Claim C4 states that neither direction raises an error for a numeric value. Both do:
  the \<open>DECIMAL\<close> case and the \<open>NUMERICOID\<close> case of the source are explicit
  \<^verbatim>\<open>elog(ERROR, ...)\<close> branches.
\<close>

theorem numeric_conversion_raises_counterexample:
  "ConvertPostgresToDuckValue sample_env Map.empty 0
     \<lparr>vec_type = \<lparr>type_id = DECIMAL, aux_info = Some (DecimalTypeInfo 10 2)\<rparr>,
      vec_data = Map.empty, vec_invalid = {}\<rparr> 0 = Inl DecimalTypeError
   \<and> ConvertDuckToPostgresValue sample_env Map.empty
     \<lparr>tts_tupleDescriptor =
        \<lparr>attrs = [\<lparr>atttypid = NUMERICOID, attlen = - 1, attalign = CHR ''i'', attbyval = False,
                   attcacheoff = - 1\<rparr>]\<rparr>,
      tts_values = [0]\<rparr> (Int64Value 12345) 0 = Inl (UnsupportedPostgresType NUMERICOID)"
  by (simp add: ConvertPostgresToDuckValue_def ConvertDuckToPostgresValue_def)

text \<open>
  Claim C4, as amended. Neither direction converts a numeric through the fixed-width
  path of the decimal codec: on a \<open>DECIMAL\<close> destination vector
  \<open>ConvertPostgresToDuckValue\<close> raises the "DECIMAL TYPE" error, and on a
  \<open>NUMERICOID\<close> destination attribute \<open>ConvertDuckToPostgresValue\<close> raises the
  unsupported-type error, whatever the value.
\<close>

theorem numeric_conversion_raises:
  "(type_id (vec_type result) = DECIMAL \<longrightarrow>
      ConvertPostgresToDuckValue E mem v result offset = Inl DecimalTypeError)
   \<and> (atttypid (attrs (tts_tupleDescriptor slot) ! col) = NUMERICOID \<longrightarrow>
      ConvertDuckToPostgresValue E mem slot dv col = Inl (UnsupportedPostgresType NUMERICOID))"
  by (simp add: ConvertPostgresToDuckValue_def ConvertDuckToPostgresValue_def Let_def)

theorem numeric_conversion_raises_witness:
  "type_id (vec_type \<lparr>vec_type = \<lparr>type_id = DECIMAL, aux_info = None\<rparr>,
      vec_data = Map.empty, vec_invalid = {}\<rparr>) = DECIMAL
   \<and> ConvertPostgresToDuckValue sample_env Map.empty 7
     \<lparr>vec_type = \<lparr>type_id = DECIMAL, aux_info = None\<rparr>,
      vec_data = Map.empty, vec_invalid = {}\<rparr> 3 = Inl DecimalTypeError
   \<and> ConvertDuckToPostgresValue sample_env Map.empty
     \<lparr>tts_tupleDescriptor =
        \<lparr>attrs = [\<lparr>atttypid = NUMERICOID, attlen = - 1, attalign = CHR ''i'', attbyval = False,
                   attcacheoff = - 1\<rparr>]\<rparr>,
      tts_values = [0]\<rparr> (DoubleValue 2) 0 = Inl (UnsupportedPostgresType NUMERICOID)"
  using numeric_conversion_raises [of
      "\<lparr>vec_type = \<lparr>type_id = DECIMAL, aux_info = None\<rparr>, vec_data = Map.empty, vec_invalid = {}\<rparr>"
      sample_env Map.empty 7 3
      "\<lparr>tts_tupleDescriptor =
        \<lparr>attrs = [\<lparr>atttypid = NUMERICOID, attlen = - 1, attalign = CHR ''i'', attbyval = False,
                   attcacheoff = - 1\<rparr>]\<rparr>,
      tts_values = [0]\<rparr>" 0 "DoubleValue 2"]
  by simp


lemma date_cast_numeral: "(ucast ((scast (d :: 32 word) :: 64 word) + 10957) :: 32 word) = d + 10957"
  by (simp add: ucast_64_32_add ucast_scast_32_64)

text \<open>
  Dates. For every row-store date \<open>d\<close> (a day count, held in a datum as the sign-extended
  32-bit value): the row-to-column direction stores \<open>d + 10957\<close>, the column-to-row
  direction subtracts 10957, and converting the stored cell back yields the datum of \<open>d\<close>
  again. The arithmetic is that of the 32-bit machine integers.
\<close>

theorem date_round_trip:
  assumes "type_id (vec_type dates) = DATE"
    and "atttypid (attrs (tts_tupleDescriptor slot) ! i) = DATEOID"
  shows "ConvertPostgresToDuckValue E mem (scast d) dates offset =
           Inr (Append dates (DateValue (d + 10957)) offset)
    \<and> ConvertDuckToPostgresValue E mem slot (DateValue days) i =
           Inr (set_tts_value slot i (scast (days - 10957)), mem)
    \<and> (\<exists>dates' cell. ConvertPostgresToDuckValue E mem (scast d) dates offset = Inr dates'
          \<and> Vector_GetValue dates' offset = Some cell
          \<and> ConvertDuckToPostgresValue E mem slot cell i = Inr (set_tts_value slot i (scast d), mem))"
  using assms
  by (simp add: ConvertPostgresToDuckValue_def ConvertDuckToPostgresValue_def Let_def Append_def
      Vector_GetValue_def QUACK_DUCK_DATE_OFFSET_def date_cast_numeral)

theorem date_round_trip_witness:
  "ConvertPostgresToDuckValue sample_env Map.empty (scast (- 3 :: 32 word))
      \<lparr>vec_type = \<lparr>type_id = DATE, aux_info = None\<rparr>, vec_data = Map.empty, vec_invalid = {}\<rparr> 0 =
     Inr (Append \<lparr>vec_type = \<lparr>type_id = DATE, aux_info = None\<rparr>, vec_data = Map.empty, vec_invalid = {}\<rparr>
            (DateValue 10954) 0)
   \<and> ConvertDuckToPostgresValue sample_env Map.empty sample_slot (DateValue 10954) 0 =
     Inr (set_tts_value sample_slot 0 (scast (- 3 :: 32 word)), Map.empty)"
proof -
  let ?dates = "\<lparr>vec_type = \<lparr>type_id = DATE, aux_info = None\<rparr>, vec_data = Map.empty, vec_invalid = {}\<rparr> :: int Vector"
  have a: "type_id (vec_type ?dates) = DATE" by simp
  have c: "atttypid (attrs (tts_tupleDescriptor sample_slot) ! 0) = DATEOID" by (simp add: sample_slot_def)
  show ?thesis
    using date_round_trip [OF a c, of sample_env Map.empty "- 3" 0 10954]
    by simp
qed

text \<open>
  Timestamps. For every row-store timestamp \<open>t\<close> (a microsecond count): the row-to-column
  direction adds \<open>10957 * 86400000000\<close> once and writes the sum through \<^verbatim>\<open>dtime_t\<close> into a
  vector of logical type \<^verbatim>\<open>TIMESTAMP\<close>, whose cell is read back as a timestamp. The
  column-to-row direction reads a timestamp through \<^verbatim>\<open>GetValue<dtime_t>\<close>, that is through
  DuckDB's cast, and subtracts the same offset once from what the cast returns. So the
  round trip hands back \<open>t\<close> when the cast returns the count it was given, and, with the
  column in range, hands back another datum when the cast returns another count.
\<close>

theorem timestamp_round_trip_through_cast:
  assumes "type_id (vec_type stamps) = TIMESTAMP"
    and "atttypid (attrs (tts_tupleDescriptor slot) ! j) = TIMESTAMPOID"
  shows "ConvertPostgresToDuckValue E mem t stamps offset =
           Inr (Append stamps (DTimeValue (t + 10957 * 86400000000)) offset)
    \<and> Vector_GetValue (Append stamps (DTimeValue (t + 10957 * 86400000000)) offset) offset =
           Some (TimestampValue (t + 10957 * 86400000000))
    \<and> ConvertDuckToPostgresValue E mem slot (TimestampValue micros) j =
           (case Cast_timestamp_dtime E micros of
              Inl e \<Rightarrow> Inl e
            | Inr c \<Rightarrow> Inr (set_tts_value slot j (c - 10957 * 86400000000), mem))
    \<and> (Cast_timestamp_dtime E (t + 10957 * 86400000000) = Inr (t + 10957 * 86400000000) \<longrightarrow>
          ConvertDuckToPostgresValue E mem slot (TimestampValue (t + 10957 * 86400000000)) j =
            Inr (set_tts_value slot j t, mem))
    \<and> (\<forall>c. Cast_timestamp_dtime E (t + 10957 * 86400000000) = Inr c
              \<and> c \<noteq> t + 10957 * 86400000000 \<and> j < length (tts_values slot) \<longrightarrow>
          (\<exists>slot'. ConvertDuckToPostgresValue E mem slot (TimestampValue (t + 10957 * 86400000000)) j =
                     Inr (slot', mem)
                 \<and> tts_values slot' ! j \<noteq> t))"
proof -
  have rd: "ConvertDuckToPostgresValue E mem slot (TimestampValue m) j =
      (case Cast_timestamp_dtime E m of
         Inl e \<Rightarrow> Inl e
       | Inr c \<Rightarrow> Inr (set_tts_value slot j (c - 10957 * 86400000000), mem))" for m
    using assms(2)
    by (simp add: ConvertDuckToPostgresValue_def Let_def QUACK_DUCK_TIMESTAMP_OFFSET_def
        USECS_PER_DAY_def split: sum.splits)
  have wr: "ConvertPostgresToDuckValue E mem t stamps offset =
      Inr (Append stamps (DTimeValue (t + 10957 * 86400000000)) offset)"
    using assms(1)
    by (simp add: ConvertPostgresToDuckValue_def Let_def QUACK_DUCK_TIMESTAMP_OFFSET_def
        USECS_PER_DAY_def)
  have cell: "Vector_GetValue (Append stamps (DTimeValue (t + 10957 * 86400000000)) offset) offset =
      Some (TimestampValue (t + 10957 * 86400000000))"
    using assms(1) by (simp add: Vector_GetValue_def Append_def)
  have same: "ConvertDuckToPostgresValue E mem slot (TimestampValue (t + 10957 * 86400000000)) j =
      Inr (set_tts_value slot j t, mem)"
    if "Cast_timestamp_dtime E (t + 10957 * 86400000000) = Inr (t + 10957 * 86400000000)"
    using that by (simp add: rd)
  have other: "\<exists>slot'. ConvertDuckToPostgresValue E mem slot (TimestampValue (t + 10957 * 86400000000)) j =
        Inr (slot', mem) \<and> tts_values slot' ! j \<noteq> t"
    if "Cast_timestamp_dtime E (t + 10957 * 86400000000) = Inr c"
      and "c \<noteq> t + 10957 * 86400000000" and "j < length (tts_values slot)" for c
  proof -
    have "c - 10957 * 86400000000 \<noteq> t" using that(2) by auto
    then show ?thesis using that(1,3) by (simp add: rd set_tts_value_def)
  qed
  from wr cell rd same other show ?thesis by blast
qed

theorem timestamp_round_trip_through_cast_witness:
  "ConvertPostgresToDuckValue sample_env Map.empty 5
      \<lparr>vec_type = \<lparr>type_id = TIMESTAMP, aux_info = None\<rparr>, vec_data = Map.empty, vec_invalid = {}\<rparr> 0 =
     Inr (Append \<lparr>vec_type = \<lparr>type_id = TIMESTAMP, aux_info = None\<rparr>, vec_data = Map.empty, vec_invalid = {}\<rparr>
            (DTimeValue 946684800000005) 0)
   \<and> ConvertDuckToPostgresValue (sample_env\<lparr>Cast_timestamp_dtime := Inr\<rparr>) Map.empty sample_slot
        (TimestampValue 946684800000005) 1 =
     Inr (set_tts_value sample_slot 1 5, Map.empty)
   \<and> (\<exists>slot'. ConvertDuckToPostgresValue (sample_env\<lparr>Cast_timestamp_dtime := (\<lambda>micros. Inr 5)\<rparr>)
                  Map.empty sample_slot (TimestampValue 946684800000005) 1 = Inr (slot', Map.empty)
         \<and> tts_values slot' ! 1 \<noteq> 5)"
proof -
  let ?stamps = "\<lparr>vec_type = \<lparr>type_id = TIMESTAMP, aux_info = None\<rparr>, vec_data = Map.empty, vec_invalid = {}\<rparr> :: int Vector"
  have b: "type_id (vec_type ?stamps) = TIMESTAMP" by simp
  have d: "atttypid (attrs (tts_tupleDescriptor sample_slot) ! 1) = TIMESTAMPOID"
    by (simp add: sample_slot_def)
  have len: "(1::nat) < length (tts_values sample_slot)" by (simp add: sample_slot_def)
  have one: "ConvertPostgresToDuckValue sample_env Map.empty 5 ?stamps 0 =
      Inr (Append ?stamps (DTimeValue 946684800000005) 0)"
    using timestamp_round_trip_through_cast [OF b d, of sample_env Map.empty 5 0] by simp
  have two: "ConvertDuckToPostgresValue (sample_env\<lparr>Cast_timestamp_dtime := Inr\<rparr>) Map.empty sample_slot
        (TimestampValue 946684800000005) 1 = Inr (set_tts_value sample_slot 1 5, Map.empty)"
    using timestamp_round_trip_through_cast [OF b d, of "sample_env\<lparr>Cast_timestamp_dtime := Inr\<rparr>" Map.empty 5 0]
    by simp
  have three: "\<exists>slot'. ConvertDuckToPostgresValue (sample_env\<lparr>Cast_timestamp_dtime := (\<lambda>micros. Inr 5)\<rparr>)
        Map.empty sample_slot (TimestampValue 946684800000005) 1 = Inr (slot', Map.empty)
      \<and> tts_values slot' ! 1 \<noteq> 5"
    using timestamp_round_trip_through_cast [OF b d,
        of "sample_env\<lparr>Cast_timestamp_dtime := (\<lambda>micros. Inr 5)\<rparr>" Map.empty 5 0] len
    by (simp add: set_tts_value_def sample_slot_def)
  from one two three show ?thesis by blast
qed

section \<open>The filter evaluator\<close>

lemma conjunction_loop_Inr:
  "conjunction_loop E cs acc v n t = Inr r \<longleftrightarrow>
     (\<forall>c \<in> set cs. \<exists>b. ApplyValueFilter E c v n t = Inr b)
     \<and> r = (acc \<and> (\<forall>c \<in> set cs. ApplyValueFilter E c v n t = Inr True))"
proof (induction cs arbitrary: acc)
  case Nil
  then show ?case by auto
next
  case (Cons c cs)
  show ?case
  proof (cases "ApplyValueFilter E c v n t")
    case (Inl e)
    then show ?thesis by simp
  next
    case (Inr b)
    then show ?thesis using Cons.IH [of "acc \<and> b"] by auto
  qed
qed

lemma conjunction_loop_Inl:
  "conjunction_loop E cs acc v n t = Inl e \<longleftrightarrow>
     (\<exists>pre c post. cs = pre @ c # post
        \<and> (\<forall>p \<in> set pre. \<exists>b. ApplyValueFilter E p v n t = Inr b)
        \<and> ApplyValueFilter E c v n t = Inl e)"
proof (induction cs arbitrary: acc)
  case Nil
  then show ?case by simp
next
  case (Cons c cs)
  show ?case
  proof (cases "ApplyValueFilter E c v n t")
    case (Inl e')
    show ?thesis
    proof
      assume "conjunction_loop E (c # cs) acc v n t = Inl e"
      with Inl have "e' = e" by simp
      with Inl have "c # cs = [] @ c # cs \<and> (\<forall>p \<in> set []. \<exists>b. ApplyValueFilter E p v n t = Inr b)
          \<and> ApplyValueFilter E c v n t = Inl e" by simp
      then show "\<exists>pre c' post. c # cs = pre @ c' # post
        \<and> (\<forall>p \<in> set pre. \<exists>b. ApplyValueFilter E p v n t = Inr b)
        \<and> ApplyValueFilter E c' v n t = Inl e" by blast
    next
      assume "\<exists>pre c' post. c # cs = pre @ c' # post
        \<and> (\<forall>p \<in> set pre. \<exists>b. ApplyValueFilter E p v n t = Inr b)
        \<and> ApplyValueFilter E c' v n t = Inl e"
      then obtain pre c' post where h: "c # cs = pre @ c' # post"
        "\<forall>p \<in> set pre. \<exists>b. ApplyValueFilter E p v n t = Inr b"
        "ApplyValueFilter E c' v n t = Inl e" by blast
      have "pre = []"
      proof (cases pre)
        case Nil then show ?thesis .
      next
        case (Cons p ps)
        with h(1) have "p = c" by simp
        with h(2) Cons Inl show ?thesis by auto
      qed
      with h(1) have "c' = c" by simp
      with h(3) Inl have "e' = e" by simp
      with Inl show "conjunction_loop E (c # cs) acc v n t = Inl e" by simp
    qed
  next
    case (Inr b)
    show ?thesis
    proof
      assume "conjunction_loop E (c # cs) acc v n t = Inl e"
      with Inr have "conjunction_loop E cs (acc \<and> b) v n t = Inl e" by simp
      with Cons.IH obtain pre c' post where h: "cs = pre @ c' # post"
        "\<forall>p \<in> set pre. \<exists>b. ApplyValueFilter E p v n t = Inr b"
        "ApplyValueFilter E c' v n t = Inl e" by blast
      from h Inr have "c # cs = (c # pre) @ c' # post
        \<and> (\<forall>p \<in> set (c # pre). \<exists>b. ApplyValueFilter E p v n t = Inr b)
        \<and> ApplyValueFilter E c' v n t = Inl e" by simp
      then show "\<exists>pre c' post. c # cs = pre @ c' # post
        \<and> (\<forall>p \<in> set pre. \<exists>b. ApplyValueFilter E p v n t = Inr b)
        \<and> ApplyValueFilter E c' v n t = Inl e" by blast
    next
      assume "\<exists>pre c' post. c # cs = pre @ c' # post
        \<and> (\<forall>p \<in> set pre. \<exists>b. ApplyValueFilter E p v n t = Inr b)
        \<and> ApplyValueFilter E c' v n t = Inl e"
      then obtain pre c' post where h: "c # cs = pre @ c' # post"
        "\<forall>p \<in> set pre. \<exists>b. ApplyValueFilter E p v n t = Inr b"
        "ApplyValueFilter E c' v n t = Inl e" by blast
      have "pre \<noteq> []"
      proof
        assume "pre = []"
        with h(1) have "c' = c" by simp
        with h(3) Inr show False by simp
      qed
      then obtain ps where ps: "pre = c # ps" using h(1) by (cases pre) auto
      with h have "cs = ps @ c' # post
        \<and> (\<forall>p \<in> set ps. \<exists>b. ApplyValueFilter E p v n t = Inr b)
        \<and> ApplyValueFilter E c' v n t = Inl e" by simp
      then have "conjunction_loop E cs (acc \<and> b) v n t = Inl e"
        using Cons.IH [of "acc \<and> b"] by blast
      with Inr show "conjunction_loop E (c # cs) acc v n t = Inl e" by simp
    qed
  qed
qed

text \<open>
  Claim C8. An AND-conjunction evaluates to true exactly when every child evaluates to
  true, and the empty conjunction evaluates to true. All children are evaluated, in
  order, with no short-circuit: the conjunction is false exactly when every child
  returns and one of them returns false, and it raises the error of the first child that
  raises one, also when an earlier child has returned false.
\<close>

theorem conjunction_and_all_children:
  "(ApplyValueFilter E (ConjunctionAndFilter cs) v n t = Inr True \<longleftrightarrow>
      (\<forall>c \<in> set cs. ApplyValueFilter E c v n t = Inr True))
   \<and> (ApplyValueFilter E (ConjunctionAndFilter cs) v n t = Inr False \<longleftrightarrow>
      (\<forall>c \<in> set cs. \<exists>b. ApplyValueFilter E c v n t = Inr b)
      \<and> (\<exists>c \<in> set cs. ApplyValueFilter E c v n t = Inr False))
   \<and> (ApplyValueFilter E (ConjunctionAndFilter cs) v n t = Inl e \<longleftrightarrow>
      (\<exists>pre c post. cs = pre @ c # post
        \<and> (\<forall>p \<in> set pre. \<exists>b. ApplyValueFilter E p v n t = Inr b)
        \<and> ApplyValueFilter E c v n t = Inl e))
   \<and> ApplyValueFilter E (ConjunctionAndFilter []) v n t = Inr True"
proof -
  have a: "ApplyValueFilter E (ConjunctionAndFilter cs) v n t = conjunction_loop E cs True v n t"
    by simp
  have "conjunction_loop E cs True v n t = Inr True \<longleftrightarrow>
      (\<forall>c \<in> set cs. ApplyValueFilter E c v n t = Inr True)"
    unfolding conjunction_loop_Inr by auto
  moreover have "conjunction_loop E cs True v n t = Inr False \<longleftrightarrow>
      (\<forall>c \<in> set cs. \<exists>b. ApplyValueFilter E c v n t = Inr b)
      \<and> (\<exists>c \<in> set cs. ApplyValueFilter E c v n t = Inr False)"
    unfolding conjunction_loop_Inr by (metis (full_types) Inr_inject)
  ultimately show ?thesis
    unfolding a using conjunction_loop_Inl [of E cs True v n t e] by simp
qed

theorem conjunction_and_all_children_witness:
  "ApplyValueFilter sample_env
      (ConjunctionAndFilter [ConstantFilter COMPARE_GREATERTHAN (int32_constant 1),
                             ConstantFilter COMPARE_LESSTHAN (int32_constant 10)]) 5 False INT4OID
     = Inr True
   \<and> ApplyValueFilter sample_env
      (ConjunctionAndFilter [ConstantFilter COMPARE_GREATERTHAN (int32_constant 1),
                             ConstantFilter COMPARE_LESSTHAN (int32_constant 10)]) 15 False INT4OID
     \<noteq> Inr True
   \<and> ApplyValueFilter sample_env (ConstantFilter COMPARE_LESSTHAN (int32_constant 10)) 15 False INT4OID
     = Inr False"
  using conjunction_and_all_children [of sample_env
      "[ConstantFilter COMPARE_GREATERTHAN (int32_constant 1),
        ConstantFilter COMPARE_LESSTHAN (int32_constant 10)]" 5 False INT4OID]
    conjunction_and_all_children [of sample_env
      "[ConstantFilter COMPARE_GREATERTHAN (int32_constant 1),
        ConstantFilter COMPARE_LESSTHAN (int32_constant 10)]" 15 False INT4OID]
  by (simp add: FilterOperationSwitch_def int32_constant_def)

lemma filter_date_cast:
  "(ucast (scast (ucast ((v :: 64 word) + 10957) :: 32 word) :: 64 word) :: 32 word) = ucast v + 10957"
  by (simp add: ucast_64_32_add ucast_scast_32_64)

text \<open>
  Claim C9. For every comparison operator, datum and constant, a comparison on a date
  compares the 32-bit value of the datum plus 10957 days, and a comparison on a timestamp
  compares the 64-bit value of the datum plus 10957 * 86400000000 microseconds, against
  the stored constant: a date (timestamp) filter is the 32-bit (64-bit) integer filter
  applied to the value with the offset added. The sums are those of the machine
  integers.
\<close>

theorem filter_adds_epoch_offset:
  "FilterOperationSwitch E OP v constant DATEOID =
     Inr (Operation OP (sint ((ucast v :: 32 word) + 10957)) (sint (GetValueUnsafe_int32_t constant)))
   \<and> FilterOperationSwitch E OP v constant TIMESTAMPOID =
     Inr (Operation OP (sint (v + 10957 * 86400000000)) (sint (GetValueUnsafe_int64_t constant)))
   \<and> FilterOperationSwitch E OP (scast d) constant DATEOID =
     Inr (Operation OP (sint ((d :: 32 word) + 10957)) (sint (GetValueUnsafe_int32_t constant)))
   \<and> ApplyValueFilter E (ConstantFilter comparison_type constant) v is_null DATEOID =
     ApplyValueFilter E (ConstantFilter comparison_type constant)
       (scast ((ucast v :: 32 word) + 10957)) is_null INT4OID
   \<and> ApplyValueFilter E (ConstantFilter comparison_type constant) v is_null TIMESTAMPOID =
     ApplyValueFilter E (ConstantFilter comparison_type constant)
       (v + 10957 * 86400000000) is_null INT8OID"
  by (cases comparison_type)
     (simp_all add: FilterOperationSwitch_def Let_def PGDUCKDB_DUCK_DATE_OFFSET_def
       PGDUCKDB_DUCK_TIMESTAMP_OFFSET_def filter_date_cast ucast_scast_32_64 ucast_64_32_add)

lemma uint8_lt: "uint (w :: 8 word) < 256"
  using uint_bounded [of w] by simp

lemma uint8_high: "bit (w :: 8 word) 7 \<longleftrightarrow> 128 \<le> uint w"
proof -
  have "bit w 7 \<longleftrightarrow> bit (uint w) 7" by (simp add: bit_uint_iff)
  also have "\<dots> \<longleftrightarrow> odd (uint w div 2 ^ 7)" by (rule bit_iff_odd)
  finally have a: "bit w 7 \<longleftrightarrow> odd (uint w div 128)" by simp
  have lo: "0 \<le> uint w" by simp
  have hi: "uint w < 256" by (rule uint8_lt)
  show ?thesis unfolding a using lo hi by presburger
qed

lemma sint8_cases: "sint (w :: 8 word) = uint w - 256 * of_bool (bit w 7)"
proof -
  have "take_bit 8 (uint w) = uint w"
    using uint8_lt [of w] by (simp add: take_bit_int_eq_self_iff)
  then show ?thesis
    unfolding sint_uint by (simp add: signed_take_bit_eq_take_bit_minus bit_uint_iff)
qed

lemma char_orders_disagree:
  assumes "bit (b :: 8 word) 7" and "\<not> bit (k :: 8 word) 7"
  shows "\<not> b < k \<and> sint b < sint k \<and> b > k \<and> \<not> sint b > sint k"
proof -
  have b1: "128 \<le> uint b" using assms(1) by (simp add: uint8_high)
  have k1: "uint k < 128" using assms(2) by (simp add: uint8_high)
  have sb: "sint b = uint b - 256" using assms(1) by (simp add: sint8_cases)
  have sk: "sint k = uint k" using assms(2) by (simp add: sint8_cases)
  have b2: "uint b < 256" by (rule uint8_lt)
  have k0: "0 \<le> uint k" by simp
  have "\<not> uint b < uint k" using b1 k1 by linarith
  moreover have "sint b < sint k" unfolding sb sk using b2 k0 by linarith
  moreover have "uint k < uint b" using b1 k1 by linarith
  moreover have "\<not> sint k < sint b" unfolding sb sk using b2 k0 by linarith
  ultimately show ?thesis by (simp add: word_less_def)
qed

text \<open>
  Claim C10. On a value of type \<open>CHAROID\<close> the filter compares the low byte of the
  datum and the constant as unsigned 8-bit integers, whereas the type mapping gives
  \<open>TINYINT\<close> and both converters store and read the value as \<^verbatim>\<open>int8_t\<close> (the
  column-to-row direction sign-extends it). So for a stored byte with the high bit set
  and a constant with the high bit clear, the filter's less-than is false and its
  greater-than is true, while in the signed ordering the value is the smaller one.
\<close>

theorem char_filter_unsigned:
  "FilterOperationSwitch E OP v constant CHAROID =
     Inr (Operation OP (ucast v :: 8 word) (GetValueUnsafe_uint8_t constant))
   \<and> ConvertPostgresToDuckColumnType E CHAROID typmod = Inr (plain_type TINYINT)
   \<and> (type_id (vec_type result) = TINYINT \<longrightarrow>
        ConvertPostgresToDuckValue E mem v result offset =
          Inr (Append result (Int8Value (DatumGetChar E v)) offset))
   \<and> (atttypid (attrs (tts_tupleDescriptor slot) ! col) = CHAROID \<longrightarrow>
        ConvertDuckToPostgresValue E mem slot (Int8Value w) col =
          Inr (set_tts_value slot col (scast w), mem))
   \<and> (bit (ucast v :: 8 word) 7 \<and> \<not> bit (GetValueUnsafe_uint8_t constant) 7 \<longrightarrow>
        FilterOperationSwitch E LessThan v constant CHAROID = Inr False
        \<and> sint (ucast v :: 8 word) < sint (GetValueUnsafe_uint8_t constant)
        \<and> FilterOperationSwitch E GreaterThan v constant CHAROID = Inr True
        \<and> \<not> sint (ucast v :: 8 word) > sint (GetValueUnsafe_uint8_t constant))"
proof -
  have a: "FilterOperationSwitch E OP v constant CHAROID =
     Inr (Operation OP (ucast v :: 8 word) (GetValueUnsafe_uint8_t constant))" for OP
    by (simp add: FilterOperationSwitch_def)
  have b: "ConvertPostgresToDuckColumnType E CHAROID typmod = Inr (plain_type TINYINT)"
    by (simp add: ConvertPostgresToDuckColumnType_def)
  have c: "type_id (vec_type result) = TINYINT \<longrightarrow>
        ConvertPostgresToDuckValue E mem v result offset =
          Inr (Append result (Int8Value (DatumGetChar E v)) offset)"
    by (simp add: ConvertPostgresToDuckValue_def Let_def)
  have d: "atttypid (attrs (tts_tupleDescriptor slot) ! col) = CHAROID \<longrightarrow>
        ConvertDuckToPostgresValue E mem slot (Int8Value w) col =
          Inr (set_tts_value slot col (scast w), mem)"
    by (simp add: ConvertDuckToPostgresValue_def Let_def)
  have e: "bit (ucast v :: 8 word) 7 \<and> \<not> bit (GetValueUnsafe_uint8_t constant) 7 \<longrightarrow>
        FilterOperationSwitch E LessThan v constant CHAROID = Inr False
        \<and> sint (ucast v :: 8 word) < sint (GetValueUnsafe_uint8_t constant)
        \<and> FilterOperationSwitch E GreaterThan v constant CHAROID = Inr True
        \<and> \<not> sint (ucast v :: 8 word) > sint (GetValueUnsafe_uint8_t constant)"
    using char_orders_disagree [of "ucast v" "GetValueUnsafe_uint8_t constant"]
    unfolding a by simp
  from a [of OP] b c d e show ?thesis by blast
qed

theorem char_filter_unsigned_witness:
  "FilterOperationSwitch sample_env LessThan 255 (uint8_constant 1) CHAROID = Inr False
   \<and> sint (255 :: 8 word) < sint (1 :: 8 word)
   \<and> FilterOperationSwitch sample_env GreaterThan 255 (uint8_constant 1) CHAROID = Inr True
   \<and> ConvertPostgresToDuckValue sample_env Map.empty 255
        \<lparr>vec_type = \<lparr>type_id = TINYINT, aux_info = None\<rparr>, vec_data = Map.empty, vec_invalid = {}\<rparr> 0 =
      Inr (Append \<lparr>vec_type = \<lparr>type_id = TINYINT, aux_info = None\<rparr>, vec_data = Map.empty,
                   vec_invalid = {}\<rparr> (Int8Value (- 1)) 0)
   \<and> ConvertDuckToPostgresValue sample_env Map.empty char_slot (Int8Value (- 1)) 0 =
      Inr (set_tts_value char_slot 0 (- 1), Map.empty)"
proof -
  have h: "bit (ucast (255 :: 64 word) :: 8 word) 7 \<and> \<not> bit (GetValueUnsafe_uint8_t (uint8_constant 1)) 7"
    by (simp add: uint8_constant_def)
  have t: "type_id (vec_type \<lparr>vec_type = \<lparr>type_id = TINYINT, aux_info = None\<rparr>,
      vec_data = Map.empty, vec_invalid = {}\<rparr>) = TINYINT" by simp
  have s: "atttypid (attrs (tts_tupleDescriptor char_slot) ! 0) = CHAROID"
    by (simp add: char_slot_def)
  have g: "DatumGetChar sample_env 255 = - 1" by (simp add: sample_env_def)
  show ?thesis
    using char_filter_unsigned [of sample_env LessThan 255 "uint8_constant 1" 0
        "\<lparr>vec_type = \<lparr>type_id = TINYINT, aux_info = None\<rparr>, vec_data = Map.empty, vec_invalid = {}\<rparr>"
        Map.empty 0 char_slot 0 "- 1"] h t s g
    by (simp add: uint8_constant_def)
qed

section \<open>The tuple reader\<close>

lemma attlen_set_attcacheoff [simp]:
  "attlen (attrs (set_attcacheoff d a off) ! k) = attlen (attrs d ! k)"
  by (cases "a < length (attrs d)"; cases "k = a")
     (simp_all add: set_attcacheoff_def list_update_beyond)

lemma set_attcacheoff_other [simp]:
  "k \<noteq> a \<Longrightarrow> attrs (set_attcacheoff d a off) ! k = attrs d ! k"
  by (simp add: set_attcacheoff_def)

lemma length_set_attcacheoff [simp]:
  "length (attrs (set_attcacheoff d a off)) = length (attrs d)"
  by (simp add: set_attcacheoff_def)

lemma fetch_body_slow_mono: "f_slow s \<Longrightarrow> f_slow (fetch_body E tuple a s)"
  by (simp add: fetch_body_def Let_def)

lemma fetch_body_slow_desc: "f_slow s \<Longrightarrow> f_desc (fetch_body E tuple a s) = f_desc s"
  by (simp add: fetch_body_def Let_def)

lemma fetch_body_forces: "forces_slow E tuple (f_desc s) a \<Longrightarrow> f_slow (fetch_body E tuple a s)"
  by (auto simp add: fetch_body_def Let_def forces_slow_def)

lemma fetch_body_other: "k \<noteq> a \<Longrightarrow> attrs (f_desc (fetch_body E tuple a s)) ! k = attrs (f_desc s) ! k"
  by (simp add: fetch_body_def Let_def)

lemma fetch_body_attlen: "attlen (attrs (f_desc (fetch_body E tuple a s)) ! k) = attlen (attrs (f_desc s) ! k)"
  by (simp add: fetch_body_def Let_def)

declare fetch_loop.simps [simp del]

lemma fetch_loop_done: "n \<le> a \<Longrightarrow> fetch_loop E tuple n a s = (a, s)"
  by (simp add: fetch_loop.simps)

lemma fetch_loop_step:
  "a < n \<Longrightarrow> fetch_loop E tuple n a s = fetch_loop E tuple n (Suc a) (fetch_body E tuple a s)"
  by (subst fetch_loop.simps) simp

lemma fetch_loop_fst: "fst (fetch_loop E tuple n a s) = max a n"
proof (induction E tuple n a s rule: fetch_loop.induct)
  case (1 E tuple n attnum s)
  show ?case
  proof (cases "attnum < n")
    case True
    with 1 show ?thesis by (simp add: fetch_loop_step)
  next
    case False
    then show ?thesis by (simp add: fetch_loop_done)
  qed
qed

lemma fetch_loop_slow:
  "f_slow s \<Longrightarrow> f_slow (snd (fetch_loop E tuple n a s)) \<and> f_desc (snd (fetch_loop E tuple n a s)) = f_desc s"
proof (induction E tuple n a s rule: fetch_loop.induct)
  case (1 E tuple n attnum s)
  show ?case
  proof (cases "attnum < n")
    case True
    with 1 show ?thesis
      by (simp add: fetch_loop_step fetch_body_slow_mono fetch_body_slow_desc)
  next
    case False
    with 1 show ?thesis by (simp add: fetch_loop_done)
  qed
qed

lemma fetch_loop_frame:
  "k < a \<or> n \<le> k \<Longrightarrow> attrs (f_desc (snd (fetch_loop E tuple n a s))) ! k = attrs (f_desc s) ! k"
proof (induction E tuple n a s rule: fetch_loop.induct)
  case (1 E tuple n attnum s)
  show ?case
  proof (cases "attnum < n")
    case True
    with 1 have "k \<noteq> attnum" by auto
    with 1 True show ?thesis
      by (auto simp add: fetch_loop_step fetch_body_other)
  next
    case False
    then show ?thesis by (simp add: fetch_loop_done)
  qed
qed

lemma fetch_loop_attlen:
  "attlen (attrs (f_desc (snd (fetch_loop E tuple n a s))) ! k) = attlen (attrs (f_desc s) ! k)"
proof (induction E tuple n a s rule: fetch_loop.induct)
  case (1 E tuple n attnum s)
  show ?case
  proof (cases "attnum < n")
    case True
    with 1 show ?thesis by (simp add: fetch_loop_step fetch_body_attlen)
  next
    case False
    then show ?thesis by (simp add: fetch_loop_done)
  qed
qed

lemma fetch_loop_split:
  "a \<le> i \<Longrightarrow> i \<le> n \<Longrightarrow>
   fetch_loop E tuple n a s = fetch_loop E tuple n i (snd (fetch_loop E tuple i a s))"
proof (induction E tuple i a s rule: fetch_loop.induct)
  case (1 E tuple i attnum s)
  show ?case
  proof (cases "attnum < i")
    case True
    with 1 show ?thesis by (simp add: fetch_loop_step)
  next
    case False
    with 1 show ?thesis by (simp add: fetch_loop_done)
  qed
qed

lemma fetch_loop_forces:
  assumes "a \<le> i" and "i < n" and "forces_slow E tuple (f_desc s) i"
  shows "f_slow (snd (fetch_loop E tuple n a s))
    \<and> (\<forall>j>i. attrs (f_desc (snd (fetch_loop E tuple n a s))) ! j = attrs (f_desc s) ! j)"
proof -
  define s1 where "s1 = snd (fetch_loop E tuple i a s)"
  define s2 where "s2 = fetch_body E tuple i s1"
  have run: "fetch_loop E tuple n a s = fetch_loop E tuple n (Suc i) s2"
    using assms(1,2) fetch_loop_split [of a i n E tuple s]
    by (simp add: s1_def s2_def fetch_loop_step)
  have "forces_slow E tuple (f_desc s1) i"
    using assms(3) by (simp add: forces_slow_def s1_def fetch_loop_attlen)
  then have slow2: "f_slow s2" unfolding s2_def by (rule fetch_body_forces)
  have d1: "attrs (f_desc s1) ! j = attrs (f_desc s) ! j" if "i < j" for j
    unfolding s1_def using that by (intro fetch_loop_frame) simp
  have d2: "attrs (f_desc s2) ! j = attrs (f_desc s1) ! j" if "i < j" for j
    unfolding s2_def using that by (intro fetch_body_other) simp
  from fetch_loop_slow [OF slow2, of E tuple n "Suc i"] d1 d2 show ?thesis
    unfolding run by simp
qed

declare insert_loop.simps [simp del]

lemma HeapTupleFetchNextDatumValue_loop:
  "HeapTupleFetchNextDatumValue E desc tuple st n isNull =
     (let r = fetch_loop E tuple (min (t_natts tuple) n) (m_nvalid st)
                \<lparr>f_off = (if m_nvalid st = 0 then 0 else m_offset st),
                 f_slow = (m_nvalid st \<noteq> 0 \<and> m_slow st),
                 f_value = 0, f_isNull = isNull, f_desc = desc\<rparr>
      in (f_value (snd r), f_isNull (snd r),
          \<lparr>m_slow = f_slow (snd r), m_nvalid = fst r, m_offset = f_off (snd r)\<rparr>,
          f_desc (snd r)))"
  by (cases st) (simp add: HeapTupleFetchNextDatumValue_def Let_def split: prod.split)

lemma fetch_call_slow:
  assumes "m_nvalid st \<noteq> 0" and "m_slow st"
    and "HeapTupleFetchNextDatumValue E desc tuple st n isNull = (v, isNull', st', desc')"
  shows "m_slow st' \<and> desc' = desc"
  using assms(3) fetch_loop_slow [of "\<lparr>f_off = (if m_nvalid st = 0 then 0 else m_offset st),
                 f_slow = (m_nvalid st \<noteq> 0 \<and> m_slow st),
                 f_value = 0, f_isNull = isNull, f_desc = desc\<rparr>" E tuple "min (t_natts tuple) n" "m_nvalid st"]
    assms(1,2)
  by (auto simp add: HeapTupleFetchNextDatumValue_loop Let_def)

lemma fetch_call_forces:
  assumes "m_nvalid st \<le> i" and "i < min (t_natts tuple) n" and "forces_slow E tuple desc i"
    and "HeapTupleFetchNextDatumValue E desc tuple st n isNull = (v, isNull', st', desc')"
  shows "m_slow st' \<and> (\<forall>j>i. attrs desc' ! j = attrs desc ! j)"
  using assms(4) fetch_loop_forces [of "m_nvalid st" i "min (t_natts tuple) n" E tuple
      "\<lparr>f_off = (if m_nvalid st = 0 then 0 else m_offset st),
                 f_slow = (m_nvalid st \<noteq> 0 \<and> m_slow st),
                 f_value = 0, f_isNull = isNull, f_desc = desc\<rparr>"] assms(1,2,3)
  by (auto simp add: HeapTupleFetchNextDatumValue_loop Let_def)

lemma fetch_call_nvalid:
  assumes "HeapTupleFetchNextDatumValue E desc tuple st n isNull = (v, isNull', st', desc')"
  shows "m_nvalid st' = max (m_nvalid st) (min (t_natts tuple) n)"
  using assms by (auto simp add: HeapTupleFetchNextDatumValue_loop Let_def fetch_loop_fst)

lemma fetch_call_frame:
  assumes "k < m_nvalid st \<or> min (t_natts tuple) n \<le> k"
    and "HeapTupleFetchNextDatumValue E desc tuple st n isNull = (v, isNull', st', desc')"
  shows "attrs desc' ! k = attrs desc ! k"
  using assms(2) fetch_loop_frame [OF assms(1), of E tuple
      "\<lparr>f_off = (if m_nvalid st = 0 then 0 else m_offset st),
                 f_slow = (m_nvalid st \<noteq> 0 \<and> m_slow st),
                 f_value = 0, f_isNull = isNull, f_desc = desc\<rparr>"]
  by (auto simp add: HeapTupleFetchNextDatumValue_loop Let_def)

lemma fetch_call_attlen:
  assumes "HeapTupleFetchNextDatumValue E desc tuple st n isNull = (v, isNull', st', desc')"
  shows "attlen (attrs desc' ! k) = attlen (attrs desc ! k)"
  using assms by (auto simp add: HeapTupleFetchNextDatumValue_loop Let_def fetch_loop_attlen)


lemma row_inv_step:
  assumes inv: "row_inv E tuple desc0 c desc st"
    and call: "HeapTupleFetchNextDatumValue E desc tuple st (c + 1) isNull = (v, isNull', st', desc')"
  shows "row_inv E tuple desc0 (c + 1) desc' st'"
proof -
  let ?k = "t_natts tuple"
  from inv have nv: "m_nvalid st = min c ?k"
    and sl: "\<And>i. i < m_nvalid st \<Longrightarrow> forces_slow E tuple desc0 i \<Longrightarrow> m_slow st"
    and al: "\<And>k. attlen (attrs desc ! k) = attlen (attrs desc0 ! k)"
    and fr: "\<And>i j. i < j \<Longrightarrow> forces_slow E tuple desc0 i \<Longrightarrow> attrs desc ! j = attrs desc0 ! j"
    by (auto simp add: row_inv_def)
  have fs: "forces_slow E tuple desc i = forces_slow E tuple desc0 i" for i
    by (simp add: forces_slow_def al)
  have nv': "m_nvalid st' = min (c + 1) ?k"
    using fetch_call_nvalid [OF call] nv by auto
  have sl': "m_slow st'" if "i < m_nvalid st'" and f: "forces_slow E tuple desc0 i" for i
  proof (cases "i < m_nvalid st")
    case True
    then have "m_slow st" and "m_nvalid st \<noteq> 0" using sl f by auto
    then show ?thesis using fetch_call_slow [OF _ _ call] by simp
  next
    case False
    with that nv nv' have "m_nvalid st \<le> i" and "i < min ?k (c + 1)" by auto
    then show ?thesis using fetch_call_forces [OF _ _ _ call, of i] f fs by simp
  qed
  have al': "attlen (attrs desc' ! k) = attlen (attrs desc0 ! k)" for k
    using fetch_call_attlen [OF call] al by simp
  have fr': "attrs desc' ! j = attrs desc0 ! j" if "i < j" and f: "forces_slow E tuple desc0 i" for i j
  proof (cases "i < m_nvalid st")
    case True
    then have "m_slow st" and "m_nvalid st \<noteq> 0" using sl f by auto
    then have "desc' = desc" using fetch_call_slow [OF _ _ call] by simp
    then show ?thesis using fr that by simp
  next
    case False
    with that nv have "min ?k (c + 1) \<le> j" by auto
    then have "attrs desc' ! j = attrs desc ! j"
      using fetch_call_frame [OF _ call, of j] by simp
    then show ?thesis using fr that by simp
  qed
  show ?thesis unfolding row_inv_def using nv' sl' al' fr' by blast
qed

lemma insert_loop_inv:
  assumes "row_inv E tuple desc0 c desc st"
    and "insert_loop E mem tuple offset n c (out, desc, st) = (r, desc', st')"
  shows "\<exists>c'. row_inv E tuple desc0 c' desc' st'"
  using assms
proof (induction "n - c" arbitrary: c out desc st)
  case 0
  then show ?case by (auto simp add: insert_loop.simps)
next
  case (Suc m)
  then have lt: "c < n" by simp
  obtain v isNull st1 desc1 where
    call: "HeapTupleFetchNextDatumValue E desc tuple st (c + 1) False = (v, isNull, st1, desc1)"
    by (metis prod_cases4)
  have inv1: "row_inv E tuple desc0 (c + 1) desc1 st1"
    using row_inv_step [OF Suc.prems(1) call] .
  have m: "m = n - (c + 1)" using Suc.hyps(2) by simp
  show ?case
  proof (cases isNull)
    case True
    with Suc.prems(2) lt call have
      "insert_loop E mem tuple offset n (c + 1)
         (out\<lparr>chunk_data := (chunk_data out)[c := SetInvalid (chunk_data out ! c) offset]\<rparr>,
          desc1, st1) = (r, desc', st')"
      by (simp add: insert_loop.simps [of E mem tuple offset n c])
    then show ?thesis using Suc.hyps(1) [OF m inv1] by blast
  next
    case False
    show ?thesis
    proof (cases "ConvertPostgresToDuckValue E mem v (chunk_data out ! c) offset")
      case (Inl e)
      with Suc.prems(2) lt call False have "desc' = desc1" and "st' = st1"
        by (simp_all add: insert_loop.simps [of E mem tuple offset n c])
      with inv1 show ?thesis by blast
    next
      case (Inr result')
      with Suc.prems(2) lt call False have
        "insert_loop E mem tuple offset n (c + 1)
           (out\<lparr>chunk_data := (chunk_data out)[c := result']\<rparr>, desc1, st1) = (r, desc', st')"
        by (simp add: insert_loop.simps [of E mem tuple offset n c])
      then show ?thesis using Suc.hyps(1) [OF m inv1] by blast
    qed
  qed
qed

lemma InsertTupleIntoChunk_cache:
  assumes "i < j" and "forces_slow E tuple desc i"
  shows "attrs (snd (InsertTupleIntoChunk E mem output desc tuple offset)) ! j = attrs desc ! j"
proof -
  let ?st = "\<lparr>m_slow = False, m_nvalid = 0, m_offset = 0\<rparr>"
  obtain r desc' st' where
    run: "insert_loop E mem tuple offset (natts desc) 0 (output, desc, ?st) = (r, desc', st')"
    by (metis prod_cases3)
  have "row_inv E tuple desc 0 desc ?st" by (simp add: row_inv_def)
  from insert_loop_inv [OF this run] obtain c' where "row_inv E tuple desc c' desc' st'" ..
  then have "attrs desc' ! j = attrs desc ! j" using assms by (auto simp add: row_inv_def)
  then show ?thesis using run by (simp add: InsertTupleIntoChunk_def)
qed

text \<open>
  Once the cursor has passed the last attribute the request allows (the tuple's
  attribute count, or the requested count if that is smaller), a call of the reader
  changes nothing: it returns the datum 0 and hands back \<^verbatim>\<open>*isNull\<close>, the cursor and the
  descriptor as they came in.
\<close>

theorem fetch_beyond_natts:
  assumes "min (t_natts tuple) n \<le> m_nvalid st" and "m_nvalid st \<noteq> 0"
  shows "HeapTupleFetchNextDatumValue E desc tuple st n isNull = (0, isNull, st, desc)"
  using assms by (simp add: HeapTupleFetchNextDatumValue_loop fetch_loop_done)

theorem fetch_beyond_natts_witness:
  "min (t_natts short_tuple) 4 \<le> m_nvalid \<lparr>m_slow = False, m_nvalid = 3, m_offset = 12\<rparr>
   \<and> HeapTupleFetchNextDatumValue sample_env wide_desc short_tuple
        \<lparr>m_slow = False, m_nvalid = 3, m_offset = 12\<rparr> 4 True =
      (0, True, \<lparr>m_slow = False, m_nvalid = 3, m_offset = 12\<rparr>, wide_desc)"
proof -
  have a: "min (t_natts short_tuple) 4 \<le> m_nvalid \<lparr>m_slow = False, m_nvalid = 3, m_offset = 12\<rparr>"
    by (simp add: short_tuple_def)
  have b: "m_nvalid \<lparr>m_slow = False, m_nvalid = 3, m_offset = 12\<rparr> \<noteq> 0" by simp
  show ?thesis using fetch_beyond_natts [OF a b, of sample_env wide_desc True] a by simp
qed

text \<open>
  Claim C3 says that a request for more attributes than the tuple has yields null for
  the attributes beyond the tuple's count. The reader does truncate the request, and
  then runs no iteration of its loop: it returns the datum 0 and leaves \<^verbatim>\<open>*isNull\<close> as
  the caller set it. \<^verbatim>\<open>InsertTupleIntoChunk\<close> sets it to false before every call, so for
  the tuple of three attributes under five columns the last two columns receive the
  value 0, marked valid; and where the column beyond the tuple's count is a text column,
  the converter is handed the datum 0 as the address of the text.
\<close>

theorem short_tuple_trailing_columns_not_null:
  "HeapTupleFetchNextDatumValue sample_env wide_desc short_tuple
       \<lparr>m_slow = False, m_nvalid = 3, m_offset = 12\<rparr> 5 False =
     (0, False, \<lparr>m_slow = False, m_nvalid = 3, m_offset = 12\<rparr>, wide_desc)
   \<and> (case InsertTupleIntoChunk sample_env Map.empty wide_chunk wide_desc short_tuple 0 of
         (Inl e, d) \<Rightarrow> False
       | (Inr c, d) \<Rightarrow>
           map (\<lambda>v. vec_data v 0) (chunk_data c) =
             [Some (Int32Value 7), Some (Int32Value 8), Some (Int32Value 9),
              Some (Int32Value 0), Some (Int32Value 0)]
           \<and> map (\<lambda>v. 0 \<in> vec_invalid v) (chunk_data c) =
             [False, False, False, False, False])
   \<and> (case InsertTupleIntoChunk sample_env Map.empty text_tail_chunk text_tail_desc short_tuple 0 of
         (Inl e, d) \<Rightarrow> e = BadPointer 0
       | (Inr c, d) \<Rightarrow> False)"
  by code_simp

text \<open>
  Claim C5. Within one row: a pass of the loop body leaves slow mode set when it was
  set or when the attribute is null or of non-positive length, and writes no cached
  offset when slow mode was set on reaching the attribute; a call of the reader that
  resumes with slow mode set ends with it set and writes no cached offset, and a call
  that reads a null or non-positive-length attribute \<open>i\<close> ends with slow mode set and
  leaves the cached offsets of all attributes after \<open>i\<close> as they were; and after
  \<^verbatim>\<open>InsertTupleIntoChunk\<close> on the row, every attribute that comes after a null or
  non-positive-length attribute has the cached offset it had before.
\<close>

theorem slow_mode_blocks_offset_cache:
  "(f_slow s \<or> forces_slow E tuple (f_desc s) a \<longrightarrow> f_slow (fetch_body E tuple a s))
   \<and> (f_slow s \<longrightarrow> f_desc (fetch_body E tuple a s) = f_desc s)
   \<and> (HeapTupleFetchNextDatumValue E desc tuple st n isNull = (v, isNull', st', desc') \<longrightarrow>
        (m_nvalid st \<noteq> 0 \<and> m_slow st \<longrightarrow> m_slow st' \<and> desc' = desc)
        \<and> (m_nvalid st \<le> i \<and> i < min (t_natts tuple) n \<and> forces_slow E tuple desc i \<longrightarrow>
             m_slow st' \<and> (\<forall>j>i. attrs desc' ! j = attrs desc ! j)))
   \<and> (i < j \<and> forces_slow E tuple desc i \<longrightarrow>
        attrs (snd (InsertTupleIntoChunk E mem chunk desc tuple offset)) ! j = attrs desc ! j)"
proof -
  have a: "f_slow s \<or> forces_slow E tuple (f_desc s) a \<longrightarrow> f_slow (fetch_body E tuple a s)"
    using fetch_body_slow_mono fetch_body_forces by blast
  have b: "f_slow s \<longrightarrow> f_desc (fetch_body E tuple a s) = f_desc s"
    using fetch_body_slow_desc by blast
  have c: "HeapTupleFetchNextDatumValue E desc tuple st n isNull = (v, isNull', st', desc') \<longrightarrow>
        (m_nvalid st \<noteq> 0 \<and> m_slow st \<longrightarrow> m_slow st' \<and> desc' = desc)
        \<and> (m_nvalid st \<le> i \<and> i < min (t_natts tuple) n \<and> forces_slow E tuple desc i \<longrightarrow>
             m_slow st' \<and> (\<forall>j>i. attrs desc' ! j = attrs desc ! j))"
    using fetch_call_slow [of st E desc tuple n isNull v isNull' st' desc']
      fetch_call_forces [of st i tuple n E desc isNull v isNull' st' desc']
    by blast
  have d: "i < j \<and> forces_slow E tuple desc i \<longrightarrow>
        attrs (snd (InsertTupleIntoChunk E mem chunk desc tuple offset)) ! j = attrs desc ! j"
    using InsertTupleIntoChunk_cache by blast
  from a b c d show ?thesis by blast
qed

theorem slow_mode_blocks_offset_cache_witness:
  "forces_slow sample_env row_tuple row_desc 1
   \<and> attrs (snd (InsertTupleIntoChunk sample_env row_memory row_chunk row_desc row_tuple 0)) ! 2
       = attrs row_desc ! 2
   \<and> map attcacheoff
        (attrs (snd (InsertTupleIntoChunk sample_env row_memory row_chunk row_desc row_tuple 0)))
       = [0, - 1, - 1]"
proof -
  have f: "forces_slow sample_env row_tuple row_desc 1" by code_simp
  have m: "map attcacheoff
        (attrs (snd (InsertTupleIntoChunk sample_env row_memory row_chunk row_desc row_tuple 0)))
       = [0, - 1, - 1]" by code_simp
  have "(1::nat) < 2" by simp
  with f m show ?thesis
    using slow_mode_blocks_offset_cache [of _ sample_env row_tuple _ row_desc _ _ _ _ _ _ _ 1 2
        row_memory row_chunk 0]
    by blast
qed

section \<open>The decimal codec\<close>

declare integral_loop.simps [simp del] fractional_loop.simps [simp del]

lemma integer_arith_simps [simp]:
  "T_of_int integer_arith i = i"
  "T_add integer_arith a b = a + b"
  "T_mul integer_arith a b = a * b"
  "T_div integer_arith a b = trunc_div a b"
  "T_neg integer_arith a = - a"
  by (simp_all add: integer_arith_def)

lemma DecimalConversionInteger_simps [simp]:
  "GetPowerOfTen DecimalConversionInteger k = 10 ^ k"
  "Finalize DecimalConversionInteger numeric r = r"
  by (simp_all add: DecimalConversionInteger_def)

lemma trunc_div_nonneg: "0 \<le> a \<Longrightarrow> 0 < b \<Longrightarrow> trunc_div a b = a div b"
  by (cases "a = 0") (simp_all add: trunc_div_def)

lemma idx_t_of_int_nat: "0 \<le> i \<Longrightarrow> i < 2 ^ 31 \<Longrightarrow> idx_t_of_int i = nat i"
  by (simp add: idx_t_of_int_def)

lemma integral_loop_closed:
  assumes "ndigits numeric = int (length (digits numeric))" and "ndigits numeric < 2 ^ 31"
    and "weight numeric = int W" and "di \<le> Suc W"
  shows "integral_loop integer_arith numeric di acc =
           acc * 10000 ^ (Suc W - di) + (\<Sum>i = di..<Suc W. group_at numeric i * 10000 ^ (W - i))"
  using assms(4)
proof (induction "Suc W - di" arbitrary: di acc)
  case 0
  then have "di = Suc W" by simp
  then show ?case using assms(3) by (simp add: integral_loop.simps)
next
  case (Suc m)
  then have lt: "di \<le> W" by simp
  have idx: "idx_t_of_int (ndigits numeric) = length (digits numeric)"
    using assms(1,2) by (simp add: idx_t_of_int_nat)
  have step: "integral_loop integer_arith numeric di acc =
      integral_loop integer_arith numeric (Suc di) (acc * 10000 + group_at numeric di)"
    using lt assms(3) idx
    by (subst integral_loop.simps) (simp add: Let_def NBASE_def group_at_def)
  have m: "m = Suc W - Suc di" using Suc.hyps(2) by simp
  have le: "Suc di \<le> Suc W" using lt by simp
  have pw: "(10000::int) ^ (Suc W - di) = 10000 * 10000 ^ (W - di)"
    using lt by (simp add: Suc_diff_le)
  have sm: "(\<Sum>i = di..<Suc W. group_at numeric i * 10000 ^ (W - i)) =
      group_at numeric di * 10000 ^ (W - di) + (\<Sum>i = Suc di..<Suc W. group_at numeric i * 10000 ^ (W - i))"
    using lt sum.atLeast_Suc_lessThan [of di "Suc W" "\<lambda>i. group_at numeric i * 10000 ^ (W - i)"]
    by linarith
  show ?case
    unfolding step Suc.hyps(1) [OF m le] pw sm
    by (simp add: algebra_simps)
qed

lemma fractional_loop_exit:
  "ndigits numeric \<le> i \<Longrightarrow> fractional_loop A OP numeric c i acc = acc"
  by (subst fractional_loop.simps) simp

lemma fractional_loop_closed:
  assumes "ndigits numeric = int n" and "n = length (digits numeric)"
    and "c < 2 ^ 31" and "- c < 2 ^ 31" and "Suc i \<le> n"
  shows "fractional_loop integer_arith DecimalConversionInteger numeric c (int i) acc =
           (acc * 10000 ^ (n - 1 - i) + (\<Sum>k = i..<n - 1. digits numeric ! k * 10000 ^ (n - 2 - k)))
             * final_base c + final_digit c (digits numeric ! (n - 1))"
  using assms(5)
proof (induction "n - 1 - i" arbitrary: i acc)
  case 0
  then have i: "i = n - 1" and n: "0 < n" by simp_all
  have idx: "idx_t_of_int c = nat c" if "0 \<le> c"
    using that assms(3) by (simp add: idx_t_of_int_nat)
  have idx': "idx_t_of_int (- c) = nat (- c)" if "\<not> 0 \<le> c"
    using that assms(4) by (simp add: idx_t_of_int_nat)
  have "fractional_loop integer_arith DecimalConversionInteger numeric c (int i) acc =
      acc * final_base c + final_digit c (digits numeric ! i)"
  proof -
    have e: "nat (int n - 1) = n - Suc 0" by simp
    have "int i + 1 = int n" using i n by simp
    then show ?thesis
      using i n assms(1) idx idx'
      by (subst fractional_loop.simps)
         (simp add: Let_def NBASE_def final_base_def final_digit_def fractional_loop_exit e)
  qed
  then show ?case using i by simp
next
  case (Suc m)
  then have lt: "Suc i < n" by simp
  have step: "fractional_loop integer_arith DecimalConversionInteger numeric c (int i) acc =
      fractional_loop integer_arith DecimalConversionInteger numeric c (int (Suc i))
        (acc * 10000 + digits numeric ! i)"
    using lt assms(1)
    by (subst fractional_loop.simps) (simp add: Let_def NBASE_def add.commute)
  have m: "m = n - 1 - Suc i" using Suc.hyps(2) by simp
  have le: "Suc (Suc i) \<le> n" using lt by simp
  have pw: "(10000::int) ^ (n - 1 - i) = 10000 * 10000 ^ (n - 1 - Suc i)"
  proof -
    have "n - 1 - i = Suc (n - 1 - Suc i)" using lt by simp
    then show ?thesis by simp
  qed
  have ex: "n - 2 - i = n - 1 - Suc i" by simp
  have sm: "(\<Sum>k = i..<n - 1. digits numeric ! k * 10000 ^ (n - 2 - k)) =
      digits numeric ! i * 10000 ^ (n - 2 - i)
      + (\<Sum>k = Suc i..<n - 1. digits numeric ! k * 10000 ^ (n - 2 - k))"
    using lt sum.atLeast_Suc_lessThan [of i "n - 1" "\<lambda>k. digits numeric ! k * 10000 ^ (n - 2 - k)"]
    by simp
  show ?case
    unfolding step Suc.hyps(1) [OF m le] pw sm ex
    by (simp add: algebra_simps)
qed

lemma pow10_dvd_NBASE:
  assumes "0 \<le> c" and "c \<le> 4"
  shows "(10000::int) = (10000 div 10 ^ nat c) * 10 ^ nat c"
proof -
  from assms have "nat c \<in> {0, 1, 2, 3, 4}" by auto
  then show ?thesis by auto
qed

lemma final_pair_nonneg:
  assumes "0 \<le> c" and "c \<le> 4" and "0 \<le> d"
  shows "P * final_base c + final_digit c d = (P * 10000 + d) div 10 ^ nat c"
proof -
  let ?t = "(10::int) ^ nat c"
  have t: "0 < ?t" by simp
  have fb: "final_base c = 10000 div ?t"
    using assms(1) t by (simp add: final_base_def trunc_div_nonneg)
  have fd: "final_digit c d = d div ?t"
    using assms(1,3) t by (simp add: final_digit_def trunc_div_nonneg)
  define q where "q = 10000 div ?t"
  have e: "(10000::int) = q * ?t"
    unfolding q_def by (rule pow10_dvd_NBASE [OF assms(1,2)])
  have "P * 10000 = P * (q * ?t)" by (rule arg_cong [OF e])
  also have "\<dots> = (P * q) * ?t" by (simp only: mult.assoc)
  finally have "(P * 10000 + d) div ?t = ((P * q) * ?t + d) div ?t" by (simp only:)
  also have "\<dots> = P * q + d div ?t"
    using t by simp
  finally have "(P * 10000 + d) div ?t = P * q + d div ?t" .
  then show ?thesis unfolding fb fd q_def by simp
qed

lemma final_pair_neg:
  assumes "c < 0"
  shows "P * final_base c + final_digit c d = (P * 10000 + d) * 10 ^ nat (- c)"
  using assms by (simp add: final_base_def final_digit_def algebra_simps)

lemma fraction_sum_last:
  assumes "Suc i0 \<le> n"
  shows "(\<Sum>k = i0..<n. f k * (10000::int) ^ (n - 1 - k)) =
         (\<Sum>k = i0..<n - 1. f k * 10000 ^ (n - 2 - k)) * 10000 + f (n - 1)"
proof -
  obtain m where n: "n = Suc m" using assms by (cases n) auto
  have "(\<Sum>k = i0..<m. f k * (10000::int) ^ (m - k)) = (\<Sum>k = i0..<m. f k * 10000 ^ (m - 1 - k) * 10000)"
  proof (rule sum.cong)
    fix k assume "k \<in> {i0..<m}"
    then have "m - k = Suc (m - 1 - k)" by auto
    then show "f k * (10000::int) ^ (m - k) = f k * 10000 ^ (m - 1 - k) * 10000" by simp
  qed simp
  then show ?thesis using assms n by (simp add: sum_distrib_right)
qed

lemma integral_part_eq:
  assumes "wf_numeric numeric" and "0 < length (digits numeric)" and "0 \<le> weight numeric"
  shows "integral_loop integer_arith numeric 1 (digits numeric ! 0) = integral_sum numeric"
proof -
  define W where "W = nat (weight numeric)"
  have w: "weight numeric = int W" using assms(3) by (simp add: W_def)
  have nd: "ndigits numeric = int (length (digits numeric))" "ndigits numeric < 2 ^ 31"
    using assms(1) by (simp_all add: wf_numeric_def)
  have g0: "group_at numeric 0 = digits numeric ! 0"
    using assms(2) by (simp add: group_at_def)
  have "integral_loop integer_arith numeric 1 (digits numeric ! 0) =
          digits numeric ! 0 * 10000 ^ (Suc W - 1)
          + (\<Sum>i = 1..<Suc W. group_at numeric i * 10000 ^ (W - i))"
    by (rule integral_loop_closed [OF nd w]) simp
  also have "\<dots> = (\<Sum>i = 0..<Suc W. group_at numeric i * 10000 ^ (W - i))"
    using sum.atLeast_Suc_lessThan [of 0 "Suc W" "\<lambda>i. group_at numeric i * 10000 ^ (W - i)"] g0
    by simp
  finally show ?thesis
    using assms(3) by (simp add: integral_sum_def W_def lessThan_atLeast0)
qed

lemma fractional_part_eq:
  assumes "wf_numeric numeric" and "weight numeric + 1 < int (length (digits numeric))"
    and "0 < length (digits numeric)"
  shows "fractional_loop integer_arith DecimalConversionInteger numeric (correction numeric)
           (max 0 (weight numeric + 1)) 0 =
         (if correction numeric \<ge> 0
          then fraction_sum numeric div 10 ^ nat (correction numeric)
          else fraction_sum numeric * 10 ^ nat (- correction numeric))"
proof -
  define n where "n = length (digits numeric)"
  define i0 where "i0 = nat (max 0 (weight numeric + 1))"
  define c where "c = correction numeric"
  define P where "P = (\<Sum>k = i0..<n - 1. digits numeric ! k * 10000 ^ (n - 2 - k))"
  have nd: "ndigits numeric = int n" using assms(1) by (simp add: wf_numeric_def n_def)
  have i0: "max 0 (weight numeric + 1) = int i0" by (simp add: i0_def)
  have le: "Suc i0 \<le> n"
    using assms(2,3) by (simp add: i0_def n_def Suc_le_eq nat_less_iff)
  have c4: "c \<le> 4" using assms(1) by (simp add: wf_numeric_def c_def)
  have ds: "0 \<le> dscale numeric" "dscale numeric < 2 ^ 31"
    using assms(1) by (simp_all add: wf_numeric_def)
  have "dscale numeric < 2147483648" using ds(2) by simp
  moreover have "0 < int (length (digits numeric)) - weight numeric - 1"
    using assms(2) by simp
  ultimately have "- c < 2147483648"
    unfolding c_def correction_def by (simp add: algebra_simps)
  then have cn: "- c < 2 ^ 31" by simp
  have cp: "c < 2 ^ 31" using c4 by simp
  have last: "0 \<le> digits numeric ! (n - 1)"
    using assms(1) le by (simp add: wf_numeric_def n_def)
  have fs: "fraction_sum numeric = P * 10000 + digits numeric ! (n - 1)"
    unfolding fraction_sum_def P_def n_def [symmetric] i0_def [symmetric]
    by (rule fraction_sum_last [OF le])
  have "fractional_loop integer_arith DecimalConversionInteger numeric c (int i0) 0 =
          (0 * 10000 ^ (n - 1 - i0) + P) * final_base c + final_digit c (digits numeric ! (n - 1))"
    unfolding P_def by (rule fractional_loop_closed [OF nd n_def cp cn le])
  also have "\<dots> = P * final_base c + final_digit c (digits numeric ! (n - 1))" by simp
  also have "\<dots> = (if c \<ge> 0 then fraction_sum numeric div 10 ^ nat c
                     else fraction_sum numeric * 10 ^ nat (- c))"
    using final_pair_nonneg [OF _ c4 last, of P] final_pair_neg [of c P "digits numeric ! (n - 1)"] fs
    by (cases "0 \<le> c") simp_all
  finally show ?thesis unfolding c_def i0 .
qed

lemma ConvertDecimal_decoded:
  assumes "wf_numeric numeric"
  shows "ConvertDecimal integer_arith DecimalConversionInteger numeric =
           Inr (if sign numeric = NUMERIC_NEG then - decoded_magnitude numeric
                else decoded_magnitude numeric)"
proof (cases "length (digits numeric) = 0")
  case True
  then have "ndigits numeric = 0" using assms by (simp add: wf_numeric_def)
  then show ?thesis using True by (simp add: ConvertDecimal_def decoded_magnitude_def)
next
  case False
  then have pos: "0 < length (digits numeric)" by simp
  have nd: "ndigits numeric = int (length (digits numeric))"
    using assms by (simp add: wf_numeric_def)
  have nz: "ndigits numeric \<noteq> 0" using nd pos by simp
  have sc: "idx_t_of_int (dscale numeric) = nat (dscale numeric)"
    using assms by (simp add: wf_numeric_def idx_t_of_int_nat)
  have ip: "0 \<le> weight numeric \<Longrightarrow>
      integral_loop integer_arith numeric (Suc 0) (digits numeric ! 0) = integral_sum numeric"
    using integral_part_eq [OF assms pos] by simp
  have ip': "\<not> 0 \<le> weight numeric \<Longrightarrow> integral_sum numeric = 0"
    by (simp add: integral_sum_def)
  have cr: "(ndigits numeric - weight numeric - 1) * DEC_DIGITS - dscale numeric = correction numeric"
    by (simp add: correction_def nd DEC_DIGITS_def)
  have c20: "correction numeric < 20" using assms by (simp add: wf_numeric_def)
  show ?thesis
  proof (cases "weight numeric + 1 < int (length (digits numeric))")
    case True
    show ?thesis
      using True pos nz sc ip ip' cr c20 fractional_part_eq [OF assms True pos] nd
      by (simp add: ConvertDecimal_def Let_def decoded_magnitude_def NumericIsNegative_def)
  next
    case False
    show ?thesis
      using False pos nz sc ip ip' nd
      by (simp add: ConvertDecimal_def Let_def decoded_magnitude_def NumericIsNegative_def)
  qed
qed

lemma magnitude_shifted:
  assumes "int k = int (length (digits numeric)) - weight numeric - 1"
  shows "numeric_magnitude numeric * 10000 ^ k = real_of_int (all_groups_sum numeric)"
proof -
  let ?n = "length (digits numeric)"
  have t: "real_of_int (digits numeric ! i) * 10000 powi (weight numeric - int i) * 10000 ^ k =
        real_of_int (digits numeric ! i * 10000 ^ (?n - 1 - i))" if "i \<in> {..<?n}" for i
  proof -
    have "i < ?n" using that by simp
    then have e: "weight numeric - int i + int k = int (?n - 1 - i)" using assms by simp
    have "(10000::real) powi (weight numeric - int i) * 10000 ^ k =
          10000 powi (weight numeric - int i) * 10000 powi (int k)"
      by (simp add: power_int_of_nat)
    also have "\<dots> = 10000 powi (weight numeric - int i + int k)"
      by (simp add: power_int_add)
    also have "\<dots> = 10000 ^ (?n - 1 - i)"
      unfolding e by (rule power_int_of_nat)
    finally show ?thesis by (simp add: mult.assoc)
  qed
  have "numeric_magnitude numeric * 10000 ^ k =
      (\<Sum>i<?n. real_of_int (digits numeric ! i) * 10000 powi (weight numeric - int i) * 10000 ^ k)"
    by (simp add: numeric_magnitude_def sum_distrib_right)
  also have "\<dots> = (\<Sum>i<?n. real_of_int (digits numeric ! i * 10000 ^ (?n - 1 - i)))"
    by (rule sum.cong [OF refl]) (rule t)
  also have "\<dots> = real_of_int (all_groups_sum numeric)"
    unfolding all_groups_sum_def by (rule of_int_sum [symmetric])
  finally show ?thesis .
qed

lemma magnitude_integral:
  assumes "int (length (digits numeric)) \<le> weight numeric + 1"
    and "0 < length (digits numeric)"
  shows "numeric_magnitude numeric = real_of_int (integral_sum numeric)"
proof -
  let ?n = "length (digits numeric)"
  define W where "W = nat (weight numeric)"
  have w0: "0 \<le> weight numeric" using assms by linarith
  then have w: "weight numeric = int W" by (simp add: W_def)
  have nW: "?n \<le> Suc W" using assms(1) w by simp
  have w: "weight numeric = int W" "0 \<le> weight numeric" using w w0 by simp_all
  have t: "real_of_int (digits numeric ! i) * 10000 powi (weight numeric - int i) =
        real_of_int (group_at numeric i * 10000 ^ (W - i))" if "i \<in> {..<?n}" for i
  proof -
    have i: "i < ?n" using that by simp
    then have "weight numeric - int i = int (W - i)" using nW w(1) by simp
    then show ?thesis using i by (simp add: group_at_def power_int_of_nat)
  qed
  have "numeric_magnitude numeric =
      (\<Sum>i<?n. real_of_int (group_at numeric i * 10000 ^ (W - i)))"
    unfolding numeric_magnitude_def by (rule sum.cong [OF refl]) (rule t)
  also have "\<dots> = real_of_int (\<Sum>i<?n. group_at numeric i * 10000 ^ (W - i))"
    by (rule of_int_sum [symmetric])
  finally have "numeric_magnitude numeric =
      real_of_int (\<Sum>i<?n. group_at numeric i * 10000 ^ (W - i))" .
  moreover have "(\<Sum>i<Suc W. group_at numeric i * 10000 ^ (W - i))
      = (\<Sum>i<?n. group_at numeric i * 10000 ^ (W - i))"
    by (rule sum.mono_neutral_right) (use nW in \<open>auto simp add: group_at_def\<close>)
  ultimately show ?thesis using w(2) by (simp add: integral_sum_def W_def)
qed

lemma all_groups_split:
  assumes "weight numeric + 1 < int (length (digits numeric))"
    and "int k = int (length (digits numeric)) - weight numeric - 1"
  shows "all_groups_sum numeric = integral_sum numeric * 10000 ^ k + fraction_sum numeric"
proof (cases "0 \<le> weight numeric")
  case False
  then show ?thesis
    by (simp add: all_groups_sum_def integral_sum_def fraction_sum_def lessThan_atLeast0)
next
  case True
  let ?n = "length (digits numeric)"
  define W where "W = nat (weight numeric)"
  have w: "weight numeric = int W" using True by (simp add: W_def)
  have Wn: "Suc W < ?n" "Suc W \<le> ?n" using assms(1) w by simp_all
  have k: "k = ?n - 1 - W" using assms(2) w Wn by simp
  have i0: "nat (max 0 (weight numeric + 1)) = Suc W" using w by simp
  have a: "integral_sum numeric * 10000 ^ k =
      (\<Sum>i = 0..<Suc W. digits numeric ! i * 10000 ^ (?n - 1 - i))"
  proof -
    have t: "group_at numeric i * 10000 ^ (W - i) * 10000 ^ k = digits numeric ! i * 10000 ^ (?n - 1 - i)"
      if "i \<in> {0..<Suc W}" for i
    proof -
      from that Wn have "i < ?n" and "W - i + k = ?n - 1 - i" using k by auto
      then show ?thesis by (simp add: group_at_def power_add [symmetric] mult.assoc)
    qed
    have "integral_sum numeric * 10000 ^ k =
        (\<Sum>i = 0..<Suc W. group_at numeric i * 10000 ^ (W - i) * 10000 ^ k)"
      using True unfolding integral_sum_def W_def [symmetric] lessThan_atLeast0
      by (simp only: if_True sum_distrib_right)
    also have "\<dots> = (\<Sum>i = 0..<Suc W. digits numeric ! i * 10000 ^ (?n - 1 - i))"
      by (rule sum.cong [OF refl]) (rule t)
    finally show ?thesis .
  qed
  have "all_groups_sum numeric = (\<Sum>i = 0..<?n. digits numeric ! i * 10000 ^ (?n - 1 - i))"
    by (simp add: all_groups_sum_def lessThan_atLeast0)
  also have "\<dots> = (\<Sum>i = 0..<Suc W. digits numeric ! i * 10000 ^ (?n - 1 - i))
      + (\<Sum>i = Suc W..<?n. digits numeric ! i * 10000 ^ (?n - 1 - i))"
    using Wn(2) sum.atLeastLessThan_concat [of 0 "Suc W" ?n
        "\<lambda>i. digits numeric ! i * 10000 ^ (?n - 1 - i)"]
    by linarith
  finally show ?thesis unfolding a fraction_sum_def i0 by simp
qed

lemma NBASE_power: "(10000::int) ^ k = 10 ^ (4 * k)"
proof -
  have "(10000::int) = 10 ^ 4" by simp
  then show ?thesis by (simp only: power_mult [symmetric])
qed

lemma decoded_magnitude_floor:
  assumes "wf_numeric numeric"
  shows "decoded_magnitude numeric =
           \<lfloor>numeric_magnitude numeric * 10 ^ nat (dscale numeric)\<rfloor>"
proof -
  let ?n = "length (digits numeric)"
  let ?s = "nat (dscale numeric)"
  let ?c = "correction numeric"
  have s0: "0 \<le> dscale numeric" using assms by (simp add: wf_numeric_def)
  consider (empty) "?n = 0"
    | (whole) "0 < ?n" "int ?n \<le> weight numeric + 1"
    | (frac) "0 < ?n" "weight numeric + 1 < int ?n" by linarith
  then show ?thesis
  proof cases
    case empty
    then show ?thesis by (simp add: decoded_magnitude_def numeric_magnitude_def)
  next
    case whole
    have "numeric_magnitude numeric * 10 ^ ?s = real_of_int (integral_sum numeric * 10 ^ ?s)"
      using magnitude_integral [OF whole(2,1)] by simp
    then have "\<lfloor>numeric_magnitude numeric * 10 ^ ?s\<rfloor> = integral_sum numeric * 10 ^ ?s"
      by (simp only: floor_of_int)
    then show ?thesis using whole by (simp add: decoded_magnitude_def)
  next
    case frac
    define k where "k = nat (int ?n - weight numeric - 1)"
    have k: "int k = int ?n - weight numeric - 1" using frac(2) by (simp add: k_def)
    have c: "?c = 4 * int k - dscale numeric" by (simp add: correction_def k)
    have all: "all_groups_sum numeric = integral_sum numeric * 10000 ^ k + fraction_sum numeric"
      by (rule all_groups_split [OF frac(2) k])
    have sh: "numeric_magnitude numeric * 10000 ^ k = real_of_int (all_groups_sum numeric)"
      by (rule magnitude_shifted [OF k])
    show ?thesis
    proof (cases "0 \<le> ?c")
      case True
      have e: "4 * k = nat ?c + ?s" using c True s0 by linarith
      have pw: "(10000::int) ^ k = 10 ^ ?s * 10 ^ nat ?c"
        unfolding NBASE_power e by (simp add: power_add)
      have pwr: "(10000::real) ^ k = 10 ^ ?s * 10 ^ nat ?c"
      proof -
        have "(10000::real) ^ k = real_of_int (10000 ^ k)" by simp
        also have "\<dots> = real_of_int (10 ^ ?s * 10 ^ nat ?c)" by (simp only: pw)
        finally show ?thesis by simp
      qed
      have "numeric_magnitude numeric * 10 ^ ?s * 10 ^ nat ?c = real_of_int (all_groups_sum numeric)"
        using sh unfolding pwr by (simp add: mult.assoc)
      then have "numeric_magnitude numeric * 10 ^ ?s =
          real_of_int (all_groups_sum numeric) / real_of_int (10 ^ nat ?c)"
        by (simp add: field_simps)
      then have "\<lfloor>numeric_magnitude numeric * 10 ^ ?s\<rfloor> = all_groups_sum numeric div 10 ^ nat ?c"
        by (simp only: floor_divide_of_int_eq)
      also have "\<dots> = ((integral_sum numeric * 10 ^ ?s) * 10 ^ nat ?c + fraction_sum numeric) div 10 ^ nat ?c"
        unfolding all pw by (simp only: mult.assoc)
      also have "\<dots> = integral_sum numeric * 10 ^ ?s + fraction_sum numeric div 10 ^ nat ?c"
        by simp
      finally show ?thesis using frac True by (simp add: decoded_magnitude_def)
    next
      case False
      have e: "?s = 4 * k + nat (- ?c)" using c False s0 by linarith
      have pw: "(10::int) ^ ?s = 10000 ^ k * 10 ^ nat (- ?c)"
        unfolding NBASE_power by (subst e) (simp add: power_add)
      have "numeric_magnitude numeric * 10 ^ ?s =
          numeric_magnitude numeric * real_of_int (10 ^ ?s)" by simp
      also have "\<dots> = numeric_magnitude numeric * real_of_int (10000 ^ k * 10 ^ nat (- ?c))"
        by (simp only: pw)
      also have "\<dots> = (numeric_magnitude numeric * 10000 ^ k) * 10 ^ nat (- ?c)" by simp
      also have "\<dots> = real_of_int (all_groups_sum numeric * 10 ^ nat (- ?c))"
        unfolding sh by simp
      finally have "\<lfloor>numeric_magnitude numeric * 10 ^ ?s\<rfloor> = all_groups_sum numeric * 10 ^ nat (- ?c)"
        by (simp only: floor_of_int)
      also have "\<dots> = integral_sum numeric * (10000 ^ k * 10 ^ nat (- ?c))
          + fraction_sum numeric * 10 ^ nat (- ?c)"
        unfolding all by (simp add: algebra_simps)
      also have "\<dots> = integral_sum numeric * 10 ^ ?s + fraction_sum numeric * 10 ^ nat (- ?c)"
        by (simp only: pw)
      finally show ?thesis using frac False by (simp add: decoded_magnitude_def)
    qed
  qed
qed





subsection \<open>The decimal codec at 64 bits\<close>

lemma int64_arith_simps [simp]:
  "T_of_int int64_arith i = word_of_int i"
  "T_add int64_arith a b = a + b"
  "T_mul int64_arith a b = a * b"
  "T_div int64_arith a b = word_of_int (trunc_div (sint a) (sint b))"
  "T_neg int64_arith a = - a"
  by (simp_all add: int64_arith_def)

lemma DecimalConversionInteger64_simps [simp]:
  "GetPowerOfTen DecimalConversionInteger64 k = word_of_int (10 ^ k)"
  "Finalize DecimalConversionInteger64 numeric r = r"
  by (simp_all add: DecimalConversionInteger64_def)

lemma sint_word_of_int_64:
  "- (2 ^ 63) \<le> x \<Longrightarrow> x < 2 ^ 63 \<Longrightarrow> sint (word_of_int x :: 64 word) = x"
  by (simp add: signed_of_int signed_take_bit_int_eq_self)


lemma integral_loop_int64:
  "integral_loop int64_arith numeric di (word_of_int acc) =
     word_of_int (integral_loop integer_arith numeric di acc)"
proof (induction "nat (weight numeric + 1 - int di)" arbitrary: di acc)
  case 0
  then have "\<not> int di \<le> weight numeric" by simp
  then show ?case by (simp add: integral_loop.simps)
next
  case (Suc m)
  then have le: "int di \<le> weight numeric" by simp
  have m: "m = nat (weight numeric + 1 - int (Suc di))" using Suc.hyps(2) by simp
  show ?case
  proof (cases "di < idx_t_of_int (ndigits numeric)")
    case True
    have "integral_loop int64_arith numeric di (word_of_int acc) =
        integral_loop int64_arith numeric (Suc di) (word_of_int (acc * NBASE + digits numeric ! di))"
      using le True by (subst integral_loop.simps) (simp add: Let_def)
    also have "\<dots> = word_of_int (integral_loop integer_arith numeric (Suc di) (acc * NBASE + digits numeric ! di))"
      by (rule Suc.hyps(1) [OF m])
    also have "integral_loop integer_arith numeric (Suc di) (acc * NBASE + digits numeric ! di) =
        integral_loop integer_arith numeric di acc"
      using le True by (subst (2) integral_loop.simps) (simp add: Let_def)
    finally show ?thesis .
  next
    case False
    have "integral_loop int64_arith numeric di (word_of_int acc) =
        integral_loop int64_arith numeric (Suc di) (word_of_int (acc * NBASE))"
      using le False by (subst integral_loop.simps) (simp add: Let_def)
    also have "\<dots> = word_of_int (integral_loop integer_arith numeric (Suc di) (acc * NBASE))"
      by (rule Suc.hyps(1) [OF m])
    also have "integral_loop integer_arith numeric (Suc di) (acc * NBASE) =
        integral_loop integer_arith numeric di acc"
      using le False by (subst (2) integral_loop.simps) (simp add: Let_def)
    finally show ?thesis .
  qed
qed

lemma pow10_lt_2_63: "k \<le> 18 \<Longrightarrow> (10::int) ^ k < 2 ^ 63"
proof -
  assume "k \<le> 18"
  then have "(10::int) ^ k \<le> 10 ^ 18" by (intro power_increasing) simp_all
  also have "\<dots> < 2 ^ 63" by simp
  finally show ?thesis .
qed

lemma int64_div:
  assumes "0 \<le> a" and "a < 2 ^ 63" and "k \<le> 18"
  shows "word_of_int (trunc_div (sint (word_of_int a :: 64 word)) (sint (word_of_int (10 ^ k) :: 64 word)))
           = (word_of_int (trunc_div a (10 ^ k)) :: 64 word)"
proof -
  have "sint (word_of_int a :: 64 word) = a"
    using assms(1,2) by (intro sint_word_of_int_64) simp_all
  moreover have "- (2 ^ 63) \<le> (10::int) ^ k"
    by (rule order_trans [of _ 0]) simp_all
  then have "sint (word_of_int (10 ^ k) :: 64 word) = 10 ^ k"
    using pow10_lt_2_63 [OF assms(3)] by (intro sint_word_of_int_64)
  ultimately show ?thesis by simp
qed

lemma fractional_loop_int64:
  assumes "ndigits numeric = int (length (digits numeric))"
    and "\<forall>d \<in> set (digits numeric). 0 \<le> d \<and> d < 2 ^ 63"
    and "c \<le> 18" and "- c < 2 ^ 31" and "0 \<le> i"
  shows "fractional_loop int64_arith DecimalConversionInteger64 numeric c i (word_of_int acc) =
     word_of_int (fractional_loop integer_arith DecimalConversionInteger numeric c i acc)"
  using assms(5)
proof (induction "nat (ndigits numeric - i)" arbitrary: i acc)
  case 0
  then have "ndigits numeric \<le> i" by simp
  then show ?case by (simp add: fractional_loop_exit)
next
  case (Suc m)
  then have lt: "i < ndigits numeric" by simp
  have m: "m = nat (ndigits numeric - (i + 1))" using Suc.hyps(2) by simp
  have i1: "0 \<le> i + 1" using Suc.prems by simp
  have "nat i < length (digits numeric)" using lt Suc.prems assms(1) by simp
  then have dg: "0 \<le> digits numeric ! nat i" "digits numeric ! nat i < 2 ^ 63"
    using assms(2) by simp_all
  show ?case
  proof (cases "i + 1 < ndigits numeric")
    case True
    have "fractional_loop int64_arith DecimalConversionInteger64 numeric c i (word_of_int acc) =
        fractional_loop int64_arith DecimalConversionInteger64 numeric c (i + 1)
          (word_of_int (acc * NBASE + digits numeric ! nat i))"
      using lt True by (subst fractional_loop.simps) (simp add: Let_def)
    also have "\<dots> = word_of_int (fractional_loop integer_arith DecimalConversionInteger numeric c (i + 1)
          (acc * NBASE + digits numeric ! nat i))"
      by (rule Suc.hyps(1) [OF m i1])
    also have "fractional_loop integer_arith DecimalConversionInteger numeric c (i + 1)
          (acc * NBASE + digits numeric ! nat i) =
        fractional_loop integer_arith DecimalConversionInteger numeric c i acc"
      using lt True by (subst (2) fractional_loop.simps) (simp add: Let_def)
    finally show ?thesis .
  next
    case False
    then have ex: "ndigits numeric \<le> i + 1" by simp
    show ?thesis
    proof (cases "0 \<le> c")
      case True
      have idx: "idx_t_of_int c = nat c" using True assms(3) by (simp add: idx_t_of_int_nat)
      have k: "nat c \<le> 18" using assms(3) by simp
      show ?thesis
        using lt False True idx int64_div [OF _ _ k, of 10000] int64_div [OF dg k]
        by (subst fractional_loop.simps, subst (2) fractional_loop.simps)
           (simp add: Let_def NBASE_def fractional_loop_exit [OF ex])
    next
      case False
      have idx: "idx_t_of_int (- c) = nat (- c)" using False assms(4) by (simp add: idx_t_of_int_nat)
      show ?thesis
        using lt \<open>\<not> i + 1 < ndigits numeric\<close> False idx
        by (subst fractional_loop.simps, subst (2) fractional_loop.simps)
           (simp add: Let_def NBASE_def fractional_loop_exit [OF ex])
    qed
  qed
qed

lemma ConvertDecimal_int64:
  assumes "wf_numeric numeric"
    and "\<forall>d \<in> set (digits numeric). d < 2 ^ 63"
  shows "ConvertDecimal int64_arith DecimalConversionInteger64 numeric =
     (case ConvertDecimal integer_arith DecimalConversionInteger numeric of
        Inl e \<Rightarrow> Inl e | Inr r \<Rightarrow> Inr (word_of_int r))"
proof -
  have nd: "ndigits numeric = int (length (digits numeric))"
    using assms(1) by (simp add: wf_numeric_def)
  have dg: "\<forall>d \<in> set (digits numeric). 0 \<le> d \<and> d < 2 ^ 63"
    using assms by (simp add: wf_numeric_def)
  let ?c = "(ndigits numeric - weight numeric - 1) * DEC_DIGITS - dscale numeric"
  have c18: "?c \<le> 18"
    using assms(1) by (simp add: wf_numeric_def correction_def DEC_DIGITS_def)
  have il: "integral_loop int64_arith numeric 1 (word_of_int (digits numeric ! 0)) =
      word_of_int (integral_loop integer_arith numeric 1 (digits numeric ! 0))"
    by (rule integral_loop_int64)
  have fl: "fractional_loop int64_arith DecimalConversionInteger64 numeric ?c
        (max 0 (weight numeric + 1)) 0 =
      word_of_int (fractional_loop integer_arith DecimalConversionInteger numeric ?c
        (max 0 (weight numeric + 1)) 0)"
    if "weight numeric + 1 < ndigits numeric"
  proof -
    have "- ?c < 2 ^ 31"
      using that assms(1) by (simp add: wf_numeric_def DEC_DIGITS_def)
    from fractional_loop_int64 [OF nd dg c18 this, of "max 0 (weight numeric + 1)" 0]
    show ?thesis by simp
  qed
  show ?thesis
    using il fl c18
    by (simp add: ConvertDecimal_def Let_def)
qed

text \<open>
  At 64 bits: for a well-formed numeric with base-10000 digit groups, whose magnitude
  scaled by \<open>10 ^ dscale\<close> and truncated is below \<open>2 ^ 63\<close>, the template instantiated at
  \<^verbatim>\<open>int64_t\<close> returns, and the signed reading of its result is that truncated scaled
  magnitude with the sign of the numeric: no wrap-around shows in the result.
\<close>

theorem convert_decimal_int64_in_range:
  assumes "ndigits numeric = int (length (digits numeric))"
    and "ndigits numeric < 2 ^ 31"
    and "\<forall>d \<in> set (digits numeric). 0 \<le> d \<and> d < NBASE"
    and "0 \<le> dscale numeric" and "dscale numeric < 2 ^ 31"
    and "(ndigits numeric - weight numeric - 1) * 4 - dscale numeric \<le> 4"
    and "\<lfloor>numeric_magnitude numeric * 10 ^ nat (dscale numeric)\<rfloor> < 2 ^ 63"
  shows "case ConvertDecimal int64_arith DecimalConversionInteger64 numeric of
           Inl e \<Rightarrow> False
         | Inr r \<Rightarrow> sint r =
             (if sign numeric = NUMERIC_NEG
              then - \<lfloor>numeric_magnitude numeric * 10 ^ nat (dscale numeric)\<rfloor>
              else \<lfloor>numeric_magnitude numeric * 10 ^ nat (dscale numeric)\<rfloor>)"
proof -
  let ?m = "\<lfloor>numeric_magnitude numeric * 10 ^ nat (dscale numeric)\<rfloor>"
  have wf: "wf_numeric numeric"
    using assms by (simp add: wf_numeric_def correction_def)
  have dg: "\<forall>d \<in> set (digits numeric). d < 2 ^ 63"
    using assms(3) by (auto simp add: NBASE_def)
  have m: "decoded_magnitude numeric = ?m" by (rule decoded_magnitude_floor [OF wf])
  have "0 \<le> numeric_magnitude numeric * 10 ^ nat (dscale numeric)"
    using assms(3) by (auto simp add: numeric_magnitude_def intro!: mult_nonneg_nonneg sum_nonneg)
  then have m0: "0 \<le> ?m" by simp
  have "sint (word_of_int ?m :: 64 word) = ?m"
    using m0 assms(7) by (intro sint_word_of_int_64) linarith+
  moreover have "sint (word_of_int (- ?m) :: 64 word) = - ?m"
    using m0 assms(7) by (intro sint_word_of_int_64) linarith+
  ultimately show ?thesis
    using ConvertDecimal_int64 [OF wf dg] ConvertDecimal_decoded [OF wf] m
    by simp
qed

theorem convert_decimal_int64_in_range_witness:
  "ConvertDecimal int64_arith DecimalConversionInteger64 numeric_12345 = Inr 12345
   \<and> ConvertDecimal int64_arith DecimalConversionInteger64 numeric_minus_hundredth = Inr (- 1)"
proof -
  have from_sint: "sint r = v \<Longrightarrow> r = word_of_int v" for v and r :: "64 word"
    by auto
  have "ConvertDecimal int64_arith DecimalConversionInteger64 numeric_12345 = Inr 12345"
    using convert_decimal_int64_in_range [of numeric_12345]
    by (auto simp add: numeric_12345_def numeric_magnitude_def NBASE_def
        split: sum.splits dest!: from_sint)
  moreover have "ConvertDecimal int64_arith DecimalConversionInteger64 numeric_minus_hundredth = Inr (- 1)"
    using convert_decimal_int64_in_range [of numeric_minus_hundredth]
    by (auto simp add: numeric_minus_hundredth_def numeric_magnitude_def NBASE_def
        split: sum.splits dest!: from_sint)
  ultimately show ?thesis by blast
qed

end
